theory Spec2Isabelle
  imports Main
begin

section \<open>Go values used by the program\<close>

subsection \<open>Machine integers\<close>

text \<open>
  Go's \<open>int\<close> is 64 bits wide on the platform the program builds for (linux).
  It is modelled as \<open>int\<close> with the wrap-around of an addition written out.
\<close>

definition in_int64 :: "int \<Rightarrow> bool" where
  "in_int64 v = (- (2 ^ 63) \<le> v \<and> v < 2 ^ 63)"

definition wrap64 :: "int \<Rightarrow> int" where
  "wrap64 v = (v + 2 ^ 63) mod 2 ^ 64 - 2 ^ 63"

definition add64 :: "int \<Rightarrow> int \<Rightarrow> int" where
  "add64 a b = wrap64 (a + b)"

subsection \<open>Packages strings, strconv and fmt\<close>

text \<open>
  A Go string is a sequence of bytes. \<open>strings.Split(s, sep)\<close>, for a separator of one
  byte (the program splits at a comma): the pieces between the separators, in order;
  the empty string gives one empty piece.
\<close>

fun Split :: "string \<Rightarrow> char \<Rightarrow> string list" where
  "Split [] sep = [[]]"
| "Split (c # cs) sep =
     (if c = sep then [] # Split cs sep
      else (case Split cs sep of p # ps \<Rightarrow> (c # p) # ps | [] \<Rightarrow> [[c]]))"

text \<open>
  \<open>strings.TrimSpace\<close> removes the leading and the trailing white space that
  \<open>unicode.IsSpace\<close> accepts. \<open>space_runes\<close> lists the UTF-8 encodings of those code
  points: tab, line feed, vertical tab, form feed, carriage return, space, U+0085,
  U+00A0, U+1680, U+2000 to U+200A, U+2028, U+2029, U+202F, U+205F and U+3000.
\<close>

definition space_runes :: "string list" where
  "space_runes =
     map (\<lambda>b. [b]) [CHR 0x09, CHR 0x0A, CHR 0x0B, CHR 0x0C, CHR 0x0D, CHR 0x20] @
     [[CHR 0xC2, CHR 0x85], [CHR 0xC2, CHR 0xA0], [CHR 0xE1, CHR 0x9A, CHR 0x80]] @
     map (\<lambda>b. [CHR 0xE2, CHR 0x80, b])
       [CHR 0x80, CHR 0x81, CHR 0x82, CHR 0x83, CHR 0x84, CHR 0x85, CHR 0x86, CHR 0x87,
        CHR 0x88, CHR 0x89, CHR 0x8A, CHR 0xA8, CHR 0xA9, CHR 0xAF] @
     [[CHR 0xE2, CHR 0x81, CHR 0x9F], [CHR 0xE3, CHR 0x80, CHR 0x80]]"

definition leading_space :: "string \<Rightarrow> nat" where
  "leading_space s =
     (case find (\<lambda>e. take (length e) s = e) space_runes of
        None \<Rightarrow> 0 | Some e \<Rightarrow> length e)"

definition trailing_space :: "string \<Rightarrow> nat" where
  "trailing_space s =
     (case find (\<lambda>e. drop (length s - length e) s = e) space_runes of
        None \<Rightarrow> 0 | Some e \<Rightarrow> length e)"

lemma leading_space_le: "leading_space s \<le> length s"
proof (cases "find (\<lambda>e. take (length e) s = e) space_runes")
  case None
  then show ?thesis by (simp add: leading_space_def)
next
  case (Some e)
  then have "take (length e) s = e" by (auto simp: find_Some_iff)
  then have "length e \<le> length s"
    by (metis length_take min.cobounded1)
  with Some show ?thesis by (simp add: leading_space_def)
qed

lemma trailing_space_le: "trailing_space s \<le> length s"
proof (cases "find (\<lambda>e. drop (length s - length e) s = e) space_runes")
  case None
  then show ?thesis by (simp add: trailing_space_def)
next
  case (Some e)
  then have "drop (length s - length e) s = e" by (auto simp: find_Some_iff)
  then have "length e \<le> length s"
    by (metis diff_le_self length_drop)
  with Some show ?thesis by (simp add: trailing_space_def)
qed

function TrimLeft :: "string \<Rightarrow> string" where
  "TrimLeft s = (if leading_space s = 0 then s else TrimLeft (drop (leading_space s) s))"
  by pat_completeness auto
termination
proof (relation "measure length")
  show "wf (measure length)" by simp
next
  fix s :: string
  assume "leading_space s \<noteq> 0"
  moreover have "leading_space s \<le> length s" by (rule leading_space_le)
  ultimately show "(drop (leading_space s) s, s) \<in> measure length" by simp
qed

function TrimRight :: "string \<Rightarrow> string" where
  "TrimRight s =
     (if trailing_space s = 0 then s else TrimRight (take (length s - trailing_space s) s))"
  by pat_completeness auto
termination
proof (relation "measure length")
  show "wf (measure length)" by simp
next
  fix s :: string
  assume "trailing_space s \<noteq> 0"
  moreover have "trailing_space s \<le> length s" by (rule trailing_space_le)
  ultimately show "(take (length s - trailing_space s) s, s) \<in> measure length" by simp
qed

definition TrimSpace :: "string \<Rightarrow> string" where
  "TrimSpace s = TrimRight (TrimLeft s)"

text \<open>
  \<open>strconv.Atoi\<close>: an optional sign, then one or more decimal digits, read in base 10;
  \<open>None\<close> stands for its error, which it gives for every other string and for a number
  outside the range of \<open>int\<close>. The program drops the error's text.
\<close>

definition is_digit :: "char \<Rightarrow> bool" where
  "is_digit c = (48 \<le> (of_char c :: nat) \<and> (of_char c :: nat) \<le> 57)"

definition digit_val :: "char \<Rightarrow> int" where
  "digit_val c = int (of_char c) - 48"

definition Atoi :: "string \<Rightarrow> int option" where
  "Atoi s =
     (if s = [] then None
      else
        let neg = (hd s = CHR ''-'');
            ds = (if hd s = CHR ''-'' \<or> hd s = CHR ''+'' then tl s else s)
        in if ds = [] \<or> \<not> list_all is_digit ds then None
           else
             let n = foldl (\<lambda>a c. a * 10 + digit_val c) 0 ds;
                 v = (if neg then - n else n)
             in if in_int64 v then Some v else None)"

text \<open>The verb \<open>%d\<close> of package fmt (and \<open>strconv.Itoa\<close>): the decimal digits, after a
  minus sign for a negative number.\<close>

fun digits :: "nat \<Rightarrow> string" where
  "digits n =
     (if n < 10 then [''0123456789'' ! n]
      else digits (n div 10) @ [''0123456789'' ! (n mod 10)])"

definition Itoa :: "int \<Rightarrow> string" where
  "Itoa i = (if i < 0 then CHR ''-'' # digits (nat (- i)) else digits (nat i))"

subsection \<open>Package image: points and rectangles\<close>

record Point =
  X :: int
  Y :: int

text \<open>\<open>image.Rectangle\<close>; its fields \<open>Min\<close> and \<open>Max\<close> are suffixed, the plain names
  being the library's minimum and maximum of a set.\<close>

record Rectangle =
  Min_pt :: Point
  Max_pt :: Point

text \<open>\<open>image.Rect(x0, y0, x1, y1)\<close> swaps the coordinates of a corner pair given in the
  wrong order, so that its result is well-formed.\<close>

definition Rect :: "int \<Rightarrow> int \<Rightarrow> int \<Rightarrow> int \<Rightarrow> Rectangle" where
  "Rect x0 y0 x1 y1 =
     \<lparr>Min_pt = \<lparr>X = (if x0 > x1 then x1 else x0), Y = (if y0 > y1 then y1 else y0)\<rparr>,
      Max_pt = \<lparr>X = (if x0 > x1 then x0 else x1), Y = (if y0 > y1 then y0 else y1)\<rparr>\<rparr>"

text \<open>The zero rectangle \<open>image.ZR\<close>, and well-formedness as package image defines it.\<close>

definition ZR :: Rectangle where
  "ZR = \<lparr>Min_pt = \<lparr>X = 0, Y = 0\<rparr>, Max_pt = \<lparr>X = 0, Y = 0\<rparr>\<rparr>"

definition well_formed :: "Rectangle \<Rightarrow> bool" where
  "well_formed r = (X (Min_pt r) \<le> X (Max_pt r) \<and> Y (Min_pt r) \<le> Y (Max_pt r))"

subsection \<open>Package image/png: compression levels\<close>

datatype CompressionLevel = DefaultCompression | NoCompression | BestSpeed | BestCompression

section \<open>The world outside the program\<close>

text \<open>
  The program reaches the outside through the screenshot library (which talks to the X
  server named by the environment variable \<open>DISPLAY\<close>), the operating system (the
  environment, the file system, the viewer process), the PNG encoder and the clock. What
  these answer is a parameter of the model: a theorem holds for every \<open>platform\<close>. The
  type \<open>'img\<close> is \<open>image.Image\<close>; an error of the outside is its message.
\<close>

datatype sink = File string | Stdout

record 'img platform =
  display_bounds :: "string \<Rightarrow> Rectangle list"
  capture_rect :: "string \<Rightarrow> Rectangle \<Rightarrow> string + 'img"
  mkdir_all :: "string \<Rightarrow> string option"
  create_file :: "string \<Rightarrow> string option"
  encode_png :: "sink \<Rightarrow> CompressionLevel \<Rightarrow> 'img \<Rightarrow> string \<times> string option"
  filepath_Dir :: "string \<Rightarrow> string"
  time_now :: string
  GOOS :: string
  start_process :: "string list \<Rightarrow> string option"

text \<open>
  \<open>display_bounds p d\<close> are the bounds of the displays active on the X display \<open>d\<close>, in
  the order of enumeration (none when the display cannot be reached);
  \<open>capture_rect p d r\<close> is what \<open>screenshot.CaptureRect(r)\<close> returns there.
  \<open>mkdir_all\<close>, \<open>create_file\<close> and \<open>start_process\<close> give the error of
  \<open>os.MkdirAll\<close>, \<open>os.Create\<close> and \<open>exec.Cmd.Start\<close>, \<open>None\<close> when they succeed.
  \<open>encode_png\<close> gives the bytes the encoder writes to the sink and the error it ends
  with, if any. \<open>time_now\<close> is the local time in the layout \<open>2006-01-02_15-04-05\<close>.
\<close>

datatype call =
    Call_NumActiveDisplays string
  | Call_GetDisplayBounds string int
  | Call_CaptureRect string Rectangle
  | Call_MkdirAll string
  | Call_Create string
  | Call_Encode sink CompressionLevel
  | Call_Close string
  | Call_Start "string list"

text \<open>
  The state the program changes: the variable \<open>DISPLAY\<close> of the environment (\<open>None\<close>
  when it is unset), the field \<open>originalDisplay\<close> of the X11 strategy, the directories
  and the files of the file system, the files the process holds open, the standard
  output, and the calls made to the outside so far, oldest first. A call to the
  screenshot library is recorded with the value of \<open>DISPLAY\<close> it ran under.
\<close>

record state =
  DISPLAY :: "string option"
  originalDisplay :: string
  dirs :: "string set"
  files :: "string \<rightharpoonup> string"
  open_files :: "string list"
  stdout :: string
  calls :: "call list"

subsection \<open>Package os: the environment\<close>

text \<open>\<open>os.Getenv\<close> gives the empty string for an unset variable. \<open>os.Setenv\<close> fails,
  changing nothing, on a value that holds a NUL byte; the program ignores its error.\<close>

definition Getenv :: "state \<Rightarrow> string" where
  "Getenv st = (case DISPLAY st of None \<Rightarrow> [] | Some d \<Rightarrow> d)"

definition Setenv :: "string \<Rightarrow> state \<Rightarrow> state" where
  "Setenv d st = (if CHR 0x00 \<in> set d then st else st\<lparr>DISPLAY := Some d\<rparr>)"

definition Unsetenv :: "state \<Rightarrow> state" where
  "Unsetenv st = st\<lparr>DISPLAY := None\<rparr>"

subsection \<open>The screenshot library\<close>

definition record_call :: "call \<Rightarrow> state \<Rightarrow> state" where
  "record_call c st = st\<lparr>calls := calls st @ [c]\<rparr>"

definition NumActiveDisplays :: "'img platform \<Rightarrow> state \<Rightarrow> int \<times> state" where
  "NumActiveDisplays p st =
     (int (length (display_bounds p (Getenv st))),
      record_call (Call_NumActiveDisplays (Getenv st)) st)"

text \<open>The library answers an index that names no display with the zero rectangle.\<close>

definition GetDisplayBounds :: "'img platform \<Rightarrow> int \<Rightarrow> state \<Rightarrow> Rectangle \<times> state" where
  "GetDisplayBounds p i st =
     ((if 0 \<le> i \<and> i < int (length (display_bounds p (Getenv st)))
       then display_bounds p (Getenv st) ! nat i else ZR),
      record_call (Call_GetDisplayBounds (Getenv st) i) st)"

definition CaptureRect :: "'img platform \<Rightarrow> Rectangle \<Rightarrow> state \<Rightarrow> (string + 'img) \<times> state" where
  "CaptureRect p r st =
     (capture_rect p (Getenv st) r, record_call (Call_CaptureRect (Getenv st) r) st)"

section \<open>Package strategy\<close>

record CaptureOptions =
  Monitor :: int
  Region :: "Rectangle option"
  WindowID :: nat
  Display :: string

record Monitor =
  Index :: int
  Name :: string
  Bounds :: Rectangle

text \<open>
  The errors of the program. A Go error is a message, and \<open>%w\<close> wraps the error it
  formats; the datatype keeps the structure and \<open>Error\<close> prints the message.
\<close>

datatype error =
    NoStrategyAvailable
  | NoActiveDisplays
  | MonitorOutOfRange int int
  | Mechanism string
  | CaptureFailed error
  | ExpectedRegion
  | InvalidNumber string
  | InvalidRegion error
  | FailedCreateDirectory string
  | FailedCreateFile string
  | FailedEncodePNG string
  | UnsupportedPlatform string
  | FailedOpenViewer error

fun Error :: "error \<Rightarrow> string" where
  "Error NoStrategyAvailable = ''no screenshot strategy available''"
| "Error NoActiveDisplays = ''no active displays found''"
| "Error (MonitorOutOfRange m hi) =
     ''monitor '' @ Itoa m @ '' out of range (0-'' @ Itoa hi @ '')''"
| "Error (Mechanism e) = e"
| "Error (CaptureFailed e) = ''capture failed: '' @ Error e"
| "Error ExpectedRegion = ''expected x,y,width,height''"
| "Error (InvalidNumber s) = ''invalid number: '' @ s"
| "Error (InvalidRegion e) = ''invalid region: '' @ Error e"
| "Error (FailedCreateDirectory e) = ''failed to create directory: '' @ e"
| "Error (FailedCreateFile e) = ''failed to create file: '' @ e"
| "Error (FailedEncodePNG e) = ''failed to encode PNG: '' @ e"
| "Error (UnsupportedPlatform s) = ''unsupported platform: '' @ s"
| "Error (FailedOpenViewer e) = ''failed to open viewer: '' @ Error e"

subsection \<open>The X11 strategy\<close>

definition X11_Name :: string where
  "X11_Name = ''x11''"

definition X11_Available :: "'img platform \<Rightarrow> state \<Rightarrow> bool \<times> state" where
  "X11_Available p st =
     (let st1 = (if Getenv st = [] then Setenv '':0'' st else st);
          (n, st2) = NumActiveDisplays p st1
      in (n > 0, st2))"

text \<open>
  \<open>setDisplay\<close> returns a closure. The closure reads the field \<open>originalDisplay\<close> when
  it runs, so it is modelled by a tag and by \<open>run_cleanup\<close>, which runs the closure of
  that tag.
\<close>

datatype cleanup = NoCleanup | RestoreDisplay

definition run_cleanup :: "cleanup \<Rightarrow> state \<Rightarrow> state" where
  "run_cleanup c st =
     (case c of
        NoCleanup \<Rightarrow> st
      | RestoreDisplay \<Rightarrow>
          (if originalDisplay st \<noteq> [] then Setenv (originalDisplay st) st
           else Unsetenv st))"

definition setDisplay :: "string \<Rightarrow> state \<Rightarrow> cleanup \<times> state" where
  "setDisplay display st =
     (if display = [] then (NoCleanup, st)
      else (RestoreDisplay, Setenv display (st\<lparr>originalDisplay := Getenv st\<rparr>)))"

definition ensureDisplay :: "CaptureOptions \<Rightarrow> state \<Rightarrow> cleanup \<times> state" where
  "ensureDisplay opts st =
     (if Display opts \<noteq> [] then setDisplay (Display opts) st
      else if Getenv st = [] then setDisplay '':0'' st
      else (NoCleanup, st))"

text \<open>The loop of \<open>Capture\<close> over the displays \<open>i, ..., n - 1\<close>, with its four
  accumulators.\<close>

function combine_bounds ::
  "'img platform \<Rightarrow> int \<Rightarrow> int \<Rightarrow> int \<times> int \<times> int \<times> int \<Rightarrow> state
     \<Rightarrow> (int \<times> int \<times> int \<times> int) \<times> state" where
  "combine_bounds p n i (minX, minY, maxX, maxY) st =
     (if i < n then
        (let (bounds, st1) = GetDisplayBounds p i st;
             minX1 = (if i = 0 \<or> X (Min_pt bounds) < minX then X (Min_pt bounds) else minX);
             minY1 = (if i = 0 \<or> Y (Min_pt bounds) < minY then Y (Min_pt bounds) else minY);
             maxX1 = (if i = 0 \<or> X (Max_pt bounds) > maxX then X (Max_pt bounds) else maxX);
             maxY1 = (if i = 0 \<or> Y (Max_pt bounds) > maxY then Y (Max_pt bounds) else maxY)
         in combine_bounds p n (i + 1) (minX1, minY1, maxX1, maxY1) st1)
      else ((minX, minY, maxX, maxY), st))"
  by pat_completeness auto
termination
  by (relation "measure (\<lambda>(p, n, i, acc, st). nat (n - i))") auto

declare combine_bounds.simps [simp del]

text \<open>The body of \<open>Capture\<close> that runs between \<open>ensureDisplay\<close> and the deferred
  cleanup.\<close>

definition X11_Capture_body ::
  "'img platform \<Rightarrow> CaptureOptions \<Rightarrow> state \<Rightarrow> (error + 'img) \<times> state" where
  "X11_Capture_body p opts st =
     (case Region opts of
        Some r \<Rightarrow>
          (let (res, st1) = CaptureRect p r st
           in (case res of Inl e \<Rightarrow> (Inl (Mechanism e), st1) | Inr img \<Rightarrow> (Inr img, st1)))
      | None \<Rightarrow>
          (let (n, st1) = NumActiveDisplays p st in
           if n = 0 then (Inl NoActiveDisplays, st1)
           else if Monitor opts = - 1 then
             (let ((minX, minY, maxX, maxY), st2) = combine_bounds p n 0 (0, 0, 0, 0) st1;
                  allBounds = Rect minX minY maxX maxY;
                  (res, st3) = CaptureRect p allBounds st2
              in (case res of Inl e \<Rightarrow> (Inl (Mechanism e), st3) | Inr img \<Rightarrow> (Inr img, st3)))
           else if Monitor opts < 0 \<or> Monitor opts \<ge> n then
             (Inl (MonitorOutOfRange (Monitor opts) (n - 1)), st1)
           else
             (let (bounds, st2) = GetDisplayBounds p (Monitor opts) st1;
                  (res, st3) = CaptureRect p bounds st2
              in (case res of Inl e \<Rightarrow> (Inl (Mechanism e), st3) | Inr img \<Rightarrow> (Inr img, st3)))))"

definition X11_Capture ::
  "'img platform \<Rightarrow> CaptureOptions \<Rightarrow> state \<Rightarrow> (error + 'img) \<times> state" where
  "X11_Capture p opts st =
     (let (cleanup, st1) = ensureDisplay opts st;
          (res, st2) = X11_Capture_body p opts st1
      in (res, run_cleanup cleanup st2))"

text \<open>The loop of \<open>ListMonitors\<close>, which fills the slice made with \<open>n\<close> zero
  monitors.\<close>

definition zero_Monitor :: Monitor where
  "zero_Monitor = \<lparr>Index = 0, Name = [], Bounds = ZR\<rparr>"

function fill_monitors ::
  "'img platform \<Rightarrow> int \<Rightarrow> int \<Rightarrow> Monitor list \<Rightarrow> state \<Rightarrow> Monitor list \<times> state" where
  "fill_monitors p n i monitors st =
     (if i < n then
        (let (bounds, st1) = GetDisplayBounds p i st
         in fill_monitors p n (i + 1)
              (monitors[nat i := \<lparr>Index = i, Name = ''Display '' @ Itoa i, Bounds = bounds\<rparr>])
              st1)
      else (monitors, st))"
  by pat_completeness auto
termination
  by (relation "measure (\<lambda>(p, n, i, monitors, st). nat (n - i))") auto

declare fill_monitors.simps [simp del]

definition X11_ListMonitors :: "'img platform \<Rightarrow> state \<Rightarrow> (error + Monitor list) \<times> state" where
  "X11_ListMonitors p st =
     (let st1 = (if Getenv st = [] then Setenv '':0'' st else st);
          (n, st2) = NumActiveDisplays p st1
      in if n = 0 then (Inl NoActiveDisplays, st2)
         else
           (let (monitors, st3) = fill_monitors p n 0 (replicate (nat n) zero_Monitor) st2
            in (Inr monitors, st3)))"

subsection \<open>The interface Strategy\<close>

text \<open>The interface has one implementation. \<open>NewX11Strategy\<close> makes a strategy whose
  field \<open>originalDisplay\<close> is empty.\<close>

datatype Strategy = X11Strategy

definition NewX11Strategy :: "state \<Rightarrow> Strategy \<times> state" where
  "NewX11Strategy st = (X11Strategy, st\<lparr>originalDisplay := []\<rparr>)"

fun Strategy_Name :: "Strategy \<Rightarrow> string" where
  "Strategy_Name X11Strategy = X11_Name"

fun Strategy_Available :: "'img platform \<Rightarrow> Strategy \<Rightarrow> state \<Rightarrow> bool \<times> state" where
  "Strategy_Available p X11Strategy st = X11_Available p st"

fun Strategy_Capture ::
  "'img platform \<Rightarrow> Strategy \<Rightarrow> CaptureOptions \<Rightarrow> state \<Rightarrow> (error + 'img) \<times> state" where
  "Strategy_Capture p X11Strategy opts st = X11_Capture p opts st"

fun Strategy_ListMonitors ::
  "'img platform \<Rightarrow> Strategy \<Rightarrow> state \<Rightarrow> (error + Monitor list) \<times> state" where
  "Strategy_ListMonitors p X11Strategy st = X11_ListMonitors p st"

section \<open>Package capture\<close>

subsection \<open>The strategy registry\<close>

text \<open>
  The registry holds its strategies in the order of their registration. It does not
  look at what a strategy is, so it is modelled for any type \<open>'s\<close> of strategies; the
  program's registry holds values of the interface \<open>Strategy\<close>.
\<close>

record 's Capturer =
  strategies :: "'s list"

text \<open>\<open>New\<close> registers the X11 strategy when its availability check succeeds.\<close>

definition New :: "'img platform \<Rightarrow> state \<Rightarrow> Strategy Capturer \<times> state" where
  "New p st =
     (let (x11, st1) = NewX11Strategy st;
          (ok, st2) = Strategy_Available p x11 st1
      in (\<lparr>strategies = (if ok then [] @ [x11] else [])\<rparr>, st2))"

definition GetStrategy :: "'s Capturer \<Rightarrow> error + 's" where
  "GetStrategy c =
     (if length (strategies c) = 0 then Inl NoStrategyAvailable else Inr (strategies c ! 0))"

definition ListStrategies :: "Strategy Capturer \<Rightarrow> string list" where
  "ListStrategies c = map Strategy_Name (strategies c)"

subsection \<open>The encode and output pipeline\<close>

text \<open>\<open>intToCompressionLevel\<close>: a switch on the level with a default branch.\<close>

definition intToCompressionLevel :: "int \<Rightarrow> CompressionLevel" where
  "intToCompressionLevel level =
     (if level = 0 then NoCompression
      else if level = 1 then BestSpeed
      else if level = 2 then DefaultCompression
      else if level = 3 then BestCompression
      else BestSpeed)"

text \<open>
  The file operations of package os. \<open>os.MkdirAll\<close> leaves the directory in place when
  it succeeds; \<open>os.Create\<close> leaves an empty file and an open handle, named here by its
  path; \<open>Close\<close> gives one handle of that path back. The encoder appends its bytes to
  the sink.
\<close>

definition MkdirAll :: "'img platform \<Rightarrow> string \<Rightarrow> state \<Rightarrow> string option \<times> state" where
  "MkdirAll p dir st =
     (case mkdir_all p dir of
        Some e \<Rightarrow> (Some e, record_call (Call_MkdirAll dir) st)
      | None \<Rightarrow> (None, record_call (Call_MkdirAll dir) (st\<lparr>dirs := insert dir (dirs st)\<rparr>)))"

definition Create :: "'img platform \<Rightarrow> string \<Rightarrow> state \<Rightarrow> string option \<times> state" where
  "Create p path st =
     (case create_file p path of
        Some e \<Rightarrow> (Some e, record_call (Call_Create path) st)
      | None \<Rightarrow>
          (None, record_call (Call_Create path)
             (st\<lparr>files := (files st)(path \<mapsto> []), open_files := path # open_files st\<rparr>)))"

definition Close :: "string \<Rightarrow> state \<Rightarrow> state" where
  "Close path st = record_call (Call_Close path) (st\<lparr>open_files := remove1 path (open_files st)\<rparr>)"

definition write_sink :: "sink \<Rightarrow> string \<Rightarrow> state \<Rightarrow> state" where
  "write_sink k bytes st =
     (case k of
        Stdout \<Rightarrow> st\<lparr>stdout := stdout st @ bytes\<rparr>
      | File path \<Rightarrow>
          st\<lparr>files := (files st)(path \<mapsto> (case files st path of None \<Rightarrow> bytes | Some old \<Rightarrow> old @ bytes))\<rparr>)"

definition Encode ::
  "'img platform \<Rightarrow> sink \<Rightarrow> CompressionLevel \<Rightarrow> 'img \<Rightarrow> state \<Rightarrow> string option \<times> state" where
  "Encode p k level img st =
     (let (bytes, err) = encode_png p k level img
      in (err, record_call (Call_Encode k level) (write_sink k bytes st)))"

definition SavePNG :: "'img platform \<Rightarrow> 'img \<Rightarrow> string \<Rightarrow> int \<Rightarrow> state \<Rightarrow> error option \<times> state" where
  "SavePNG p img path compressionLevel st =
     (let dir = filepath_Dir p path;
          (err, st1) = (if dir \<noteq> [] \<and> dir \<noteq> ''.'' then MkdirAll p dir st else (None, st))
      in case err of
           Some e \<Rightarrow> (Some (FailedCreateDirectory e), st1)
         | None \<Rightarrow>
             (case Create p path st1 of
                (Some e, st2) \<Rightarrow> (Some (FailedCreateFile e), st2)
              | (None, st2) \<Rightarrow>
                  (case Encode p (File path) (intToCompressionLevel compressionLevel) img st2 of
                     (Some e, st3) \<Rightarrow> (Some (FailedEncodePNG e), Close path st3)
                   | (None, st3) \<Rightarrow> (None, Close path st3))))"

definition GenerateFilename :: "'img platform \<Rightarrow> string \<Rightarrow> string" where
  "GenerateFilename p prefix =
     (let prefix1 = (if prefix = [] then ''screenshot'' else prefix)
      in prefix1 @ ''_'' @ time_now p @ ''.png'')"

text \<open>\<open>WritePNG\<close>; the program calls it with the standard output as its writer.\<close>

definition WritePNG :: "'img platform \<Rightarrow> 'img \<Rightarrow> sink \<Rightarrow> int \<Rightarrow> state \<Rightarrow> error option \<times> state" where
  "WritePNG p img w compressionLevel st =
     (case Encode p w (intToCompressionLevel compressionLevel) img st of
        (Some e, st1) \<Rightarrow> (Some (FailedEncodePNG e), st1)
      | (None, st1) \<Rightarrow> (None, st1))"

subsection \<open>The capture orchestrator\<close>

definition Capture ::
  "'img platform \<Rightarrow> Strategy Capturer \<Rightarrow> CaptureOptions \<Rightarrow> state \<Rightarrow> (error + 'img) \<times> state" where
  "Capture p c opts st =
     (case GetStrategy c of
        Inl err \<Rightarrow> (Inl err, st)
      | Inr strat \<Rightarrow> Strategy_Capture p strat opts st)"

definition CaptureToFile ::
  "'img platform \<Rightarrow> Strategy Capturer \<Rightarrow> CaptureOptions \<Rightarrow> string \<Rightarrow> int \<Rightarrow> state \<Rightarrow> error option \<times> state" where
  "CaptureToFile p c opts outputPath compressionLevel st =
     (case GetStrategy c of
        Inl err \<Rightarrow> (Some err, st)
      | Inr strat \<Rightarrow>
          (case Strategy_Capture p strat opts st of
             (Inl err, st1) \<Rightarrow> (Some (CaptureFailed err), st1)
           | (Inr img, st1) \<Rightarrow> SavePNG p img outputPath compressionLevel st1))"

definition ListMonitors :: "'img platform \<Rightarrow> Strategy Capturer \<Rightarrow> state \<Rightarrow> (error + Monitor list) \<times> state" where
  "ListMonitors p c st =
     (case GetStrategy c of
        Inl err \<Rightarrow> (Inl err, st)
      | Inr strat \<Rightarrow> Strategy_ListMonitors p strat st)"

section \<open>Package cmd\<close>

record flags =
  monitor :: int
  region :: string
  output_path :: string
  display :: string
  listMon :: bool
  compressLevel :: int
  raw :: bool
  view :: bool
  to_stdout :: bool

text \<open>The loop of \<open>parseRegion\<close> over the parts, storing each number at its index.\<close>

fun parse_parts :: "string list \<Rightarrow> nat \<Rightarrow> int list \<Rightarrow> error + int list" where
  "parse_parts [] i vals = Inr vals"
| "parse_parts (part # parts) i vals =
     (case Atoi (TrimSpace part) of
        None \<Rightarrow> Inl (InvalidNumber part)
      | Some v \<Rightarrow> parse_parts parts (i + 1) (vals[i := v]))"

definition parseRegion :: "string \<Rightarrow> error + Rectangle" where
  "parseRegion s =
     (let parts = Split s (CHR '','') in
      if length parts \<noteq> 4 then Inl ExpectedRegion
      else
        (case parse_parts parts 0 (replicate 4 0) of
           Inl err \<Rightarrow> Inl err
         | Inr vals \<Rightarrow>
             (let x = vals ! 0; y = vals ! 1; w = vals ! 2; h = vals ! 3
              in Inr (Rect x y (add64 x w) (add64 y h)))))"

definition getCompressionLevel :: "flags \<Rightarrow> int" where
  "getCompressionLevel fl =
     (if raw fl then 0
      else if compressLevel fl = 0 then 1
      else if compressLevel fl \<ge> 3 then 3
      else compressLevel fl)"

definition Printf :: "string \<Rightarrow> state \<Rightarrow> state" where
  "Printf text st = st\<lparr>stdout := stdout st @ text\<rparr>"

definition openFile :: "'img platform \<Rightarrow> string \<Rightarrow> state \<Rightarrow> error option \<times> state" where
  "openFile p path st =
     (let argv = (if GOOS p = ''linux'' then Some [''xdg-open'', path]
                  else if GOOS p = ''darwin'' then Some [''open'', path]
                  else if GOOS p = ''windows'' then Some [''cmd'', ''/c'', ''start'', [], path]
                  else None)
      in case argv of
           None \<Rightarrow> (Some (UnsupportedPlatform (GOOS p)), st)
         | Some a \<Rightarrow> (map_option Mechanism (start_process p a), record_call (Call_Start a) st))"

definition Dx :: "Rectangle \<Rightarrow> int" where
  "Dx r = wrap64 (X (Max_pt r) - X (Min_pt r))"

definition Dy :: "Rectangle \<Rightarrow> int" where
  "Dy r = wrap64 (Y (Max_pt r) - Y (Min_pt r))"

definition monitor_line :: "Monitor \<Rightarrow> string" where
  "monitor_line m =
     ''  '' @ Itoa (Index m) @ '': '' @ Name m @ '' ('' @ Itoa (Dx (Bounds m)) @ ''x'' @
     Itoa (Dy (Bounds m)) @ '' at '' @ Itoa (X (Min_pt (Bounds m))) @ '','' @
     Itoa (Y (Min_pt (Bounds m))) @ '')'' @ [CHR 0x0A]"

definition listMonitors :: "'img platform \<Rightarrow> Strategy Capturer \<Rightarrow> state \<Rightarrow> error option \<times> state" where
  "listMonitors p capturer st =
     (case ListMonitors p capturer st of
        (Inl err, st1) \<Rightarrow> (Some err, st1)
      | (Inr monitors, st1) \<Rightarrow>
          (None,
           fold (\<lambda>m. Printf (monitor_line m)) monitors
             (Printf (''Available monitors ('' @ Itoa (int (length monitors)) @ ''):'' @ [CHR 0x0A])
                st1)))"

definition run :: "'img platform \<Rightarrow> flags \<Rightarrow> string list \<Rightarrow> state \<Rightarrow> error option \<times> state" where
  "run p fl args st =
     (let (capturer, st1) = New p st in
      if listMon fl then listMonitors p capturer st1
      else
        (let outputPath1 = (if length args > 0 then args ! 0 else output_path fl);
             outputPath = (if outputPath1 = [] then GenerateFilename p ''screenshot'' else outputPath1);
             opts = \<lparr>Monitor = monitor fl, Region = None, WindowID = 0, Display = display fl\<rparr>;
             parsed = (if region fl \<noteq> [] then
                         (case parseRegion (region fl) of
                            Inl err \<Rightarrow> Inl (InvalidRegion err)
                          | Inr rect \<Rightarrow> Inr (opts\<lparr>Region := Some rect\<rparr>))
                       else Inr opts)
         in case parsed of
              Inl err \<Rightarrow> (Some err, st1)
            | Inr opts1 \<Rightarrow>
                (let level = getCompressionLevel fl in
                 if to_stdout fl then
                   (case Capture p capturer opts1 st1 of
                      (Inl err, st2) \<Rightarrow> (Some (CaptureFailed err), st2)
                    | (Inr img, st2) \<Rightarrow> WritePNG p img Stdout level st2)
                 else
                   (case CaptureToFile p capturer opts1 outputPath level st1 of
                      (Some err, st2) \<Rightarrow> (Some err, st2)
                    | (None, st2) \<Rightarrow>
                        (let st3 = Printf (''Screenshot saved: '' @ outputPath @ [CHR 0x0A]) st2 in
                         if view fl then
                           (case openFile p outputPath st3 of
                              (Some err, st4) \<Rightarrow> (Some (FailedOpenViewer err), st4)
                            | (None, st4) \<Rightarrow> (None, st4))
                         else (None, st3))))))"

section \<open>Notions used to state the properties\<close>

text \<open>The X display a call of \<open>Capture\<close> addresses: the value of \<open>DISPLAY\<close> once
  \<open>ensureDisplay\<close> has run. For \<open>ListMonitors\<close> it is the configured display, or
  \<open>:0\<close> when none is configured.\<close>

definition display_target :: "CaptureOptions \<Rightarrow> state \<Rightarrow> string" where
  "display_target opts st = Getenv (snd (ensureDisplay opts st))"

definition list_target :: "state \<Rightarrow> string" where
  "list_target st = (if Getenv st = [] then '':0'' else Getenv st)"

text \<open>The state after some more calls to the outside.\<close>

definition record_calls :: "call list \<Rightarrow> state \<Rightarrow> state" where
  "record_calls cs st = st\<lparr>calls := calls st @ cs\<rparr>"

text \<open>The four-corner reduction over a list of rectangles: the least left and top
  edge, the greatest right and bottom edge.\<close>

definition bounding_box :: "Rectangle list \<Rightarrow> int \<times> int \<times> int \<times> int" where
  "bounding_box ds =
     (Min ((\<lambda>b. X (Min_pt b)) ` set ds), Min ((\<lambda>b. Y (Min_pt b)) ` set ds),
      Max ((\<lambda>b. X (Max_pt b)) ` set ds), Max ((\<lambda>b. Y (Max_pt b)) ` set ds))"

text \<open>What a call returns for the answer of \<open>screenshot.CaptureRect\<close>: the image, or
  the library's error as it is.\<close>

definition returned :: "string + 'img \<Rightarrow> error + 'img" where
  "returned res = (case res of Inl e \<Rightarrow> Inl (Mechanism e) | Inr img \<Rightarrow> Inr img)"

text \<open>The monitor that \<open>ListMonitors\<close> reports for the display of index \<open>i\<close>.\<close>

definition monitor_at :: "Rectangle list \<Rightarrow> nat \<Rightarrow> Monitor" where
  "monitor_at ds i = \<lparr>Index = int i, Name = ''Display '' @ Itoa (int i), Bounds = ds ! i\<rparr>"

text \<open>An environment never holds a NUL byte.\<close>

definition env_ok :: "state \<Rightarrow> bool" where
  "env_ok st = (CHR 0x00 \<notin> set (Getenv st))"

text \<open>A platform and a state for concrete runs: two displays of 1920 by 1080 side by
  side on the X display \<open>:0\<close>, none elsewhere.\<close>

definition two_displays :: "Rectangle list" where
  "two_displays = [Rect 0 0 1920 1080, Rect 1920 0 3840 1080]"

definition demo_platform :: "string platform" where
  "demo_platform =
     \<lparr>display_bounds = (\<lambda>d. if d = '':0'' then two_displays else []),
      capture_rect = (\<lambda>d r. Inr ''pixels''),
      mkdir_all = (\<lambda>dir. None),
      create_file = (\<lambda>path. None),
      encode_png = (\<lambda>k level img. (''PNG'', None)),
      filepath_Dir = (\<lambda>path. ''shots''),
      time_now = ''2024-01-02_03-04-05'',
      GOOS = ''linux'',
      start_process = (\<lambda>argv. None)\<rparr>"

definition demo_state :: "string option \<Rightarrow> state" where
  "demo_state d =
     \<lparr>DISPLAY = d, originalDisplay = [], dirs = {}, files = Map.empty, open_files = [],
      stdout = [], calls = []\<rparr>"

definition demo_capturer :: "Strategy Capturer" where
  "demo_capturer = \<lparr>strategies = [X11Strategy]\<rparr>"

definition demo_options :: "int \<Rightarrow> Rectangle option \<Rightarrow> string \<Rightarrow> CaptureOptions" where
  "demo_options m r d = \<lparr>Monitor = m, Region = r, WindowID = 0, Display = d\<rparr>"

text \<open>The calls and the state of \<open>SavePNG\<close> once the directory of the path is in
  place.\<close>

definition mkdir_calls :: "'img platform \<Rightarrow> string \<Rightarrow> call list" where
  "mkdir_calls p path =
     (if filepath_Dir p path \<noteq> [] \<and> filepath_Dir p path \<noteq> ''.''
      then [Call_MkdirAll (filepath_Dir p path)] else [])"

definition after_mkdir :: "'img platform \<Rightarrow> string \<Rightarrow> state \<Rightarrow> state" where
  "after_mkdir p path st =
     (if filepath_Dir p path \<noteq> [] \<and> filepath_Dir p path \<noteq> ''.''
      then record_call (Call_MkdirAll (filepath_Dir p path))
             (st\<lparr>dirs := insert (filepath_Dir p path) (dirs st)\<rparr>)
      else st)"

text \<open>The flags of a run that captures all monitors to a file, with a region.\<close>

definition demo_flags :: "string \<Rightarrow> flags" where
  "demo_flags r =
     \<lparr>monitor = - 1, region = r, output_path = [], display = [], listMon = False,
      compressLevel = 0, raw = False, view = False, to_stdout = False\<rparr>"

section \<open>Verified properties\<close>

subsection \<open>Frame lemmas\<close>

lemma calls_Setenv [simp]: "calls (Setenv d st) = calls st"
  by (simp add: Setenv_def)

lemma calls_Unsetenv [simp]: "calls (Unsetenv st) = calls st"
  by (simp add: Unsetenv_def)

lemma calls_run_cleanup [simp]: "calls (run_cleanup c st) = calls st"
  by (simp add: run_cleanup_def split: cleanup.splits)

lemma calls_record_call [simp]: "calls (record_call c st) = calls st @ [c]"
  by (simp add: record_call_def)

lemma Getenv_record_call [simp]: "Getenv (record_call c st) = Getenv st"
  by (simp add: record_call_def Getenv_def)

lemma calls_ensureDisplay [simp]: "calls (snd (ensureDisplay opts st)) = calls st"
  by (simp add: ensureDisplay_def setDisplay_def)

lemma record_calls_Nil [simp]: "record_calls [] st = st"
  by (simp add: record_calls_def)

lemma record_calls_Cons: "record_calls (c # cs) st = record_calls cs (record_call c st)"
  by (simp add: record_calls_def record_call_def)

lemma Getenv_record_calls [simp]: "Getenv (record_calls cs st) = Getenv st"
  by (simp add: record_calls_def Getenv_def)

lemma calls_record_calls [simp]: "calls (record_calls cs st) = calls st @ cs"
  by (simp add: record_calls_def)

lemma Capture_registered:
  "GetStrategy c = Inr strat \<Longrightarrow> Capture p c opts st = X11_Capture p opts st"
  by (cases strat) (simp add: Capture_def)

lemma ListMonitors_registered:
  "GetStrategy c = Inr strat \<Longrightarrow> ListMonitors p c st = X11_ListMonitors p st"
  by (cases strat) (simp add: ListMonitors_def)

subsection \<open>Rectangles\<close>

lemma Rect_well_formed: "well_formed (Rect x0 y0 x1 y1)"
  by (simp add: Rect_def well_formed_def)

lemma Rect_ordered:
  "x0 \<le> x1 \<Longrightarrow> y0 \<le> y1 \<Longrightarrow>
   Rect x0 y0 x1 y1 = \<lparr>Min_pt = \<lparr>X = x0, Y = y0\<rparr>, Max_pt = \<lparr>X = x1, Y = y1\<rparr>\<rparr>"
  by (simp add: Rect_def)

lemma bounding_box_ordered:
  assumes "ds \<noteq> []" and "\<forall>b\<in>set ds. well_formed b" and "bounding_box ds = (a, b, c, d)"
  shows "a \<le> c \<and> b \<le> d"
proof -
  obtain r where r: "r \<in> set ds" using assms(1) by (cases ds) auto
  then have wf: "well_formed r" using assms(2) by blast
  have "a \<le> X (Min_pt r)" "b \<le> Y (Min_pt r)" "X (Max_pt r) \<le> c" "Y (Max_pt r) \<le> d"
    using assms(3) r by (auto simp: bounding_box_def)
  with wf show ?thesis by (simp add: well_formed_def)
qed

subsection \<open>The loop over the displays\<close>

lemma bounding_box_single:
  "bounding_box [b] = (X (Min_pt b), Y (Min_pt b), X (Max_pt b), Y (Max_pt b))"
  by (simp add: bounding_box_def)

lemma bounding_box_snoc:
  assumes "ds \<noteq> []" and "bounding_box ds = (a, b, c, d)"
  shows "bounding_box (ds @ [r]) =
     ((if X (Min_pt r) < a then X (Min_pt r) else a),
      (if Y (Min_pt r) < b then Y (Min_pt r) else b),
      (if X (Max_pt r) > c then X (Max_pt r) else c),
      (if Y (Max_pt r) > d then Y (Max_pt r) else d))"
  using assms by (auto simp: bounding_box_def min_def max_def)

lemma combine_bounds_loop:
  "0 \<le> i \<Longrightarrow> i \<le> n \<Longrightarrow> 0 < n \<Longrightarrow> n = int (length (display_bounds p (Getenv st))) \<Longrightarrow>
   (0 < i \<Longrightarrow> (minX, minY, maxX, maxY) = bounding_box (take (nat i) (display_bounds p (Getenv st)))) \<Longrightarrow>
   combine_bounds p n i (minX, minY, maxX, maxY) st =
     (bounding_box (display_bounds p (Getenv st)),
      record_calls (map (Call_GetDisplayBounds (Getenv st)) [i..n - 1]) st)"
proof (induction p n i "(minX, minY, maxX, maxY)" st arbitrary: minX minY maxX maxY
    rule: combine_bounds.induct)
  case (1 p n i minX minY maxX maxY st)
  let ?ds = "display_bounds p (Getenv st)"
  show ?case
  proof (cases "i < n")
    case False
    with 1 have "i = n" by simp
    with 1 have inv: "(minX, minY, maxX, maxY) = bounding_box ?ds" by simp
    have "combine_bounds p n i (minX, minY, maxX, maxY) st = ((minX, minY, maxX, maxY), st)"
      using False by (simp add: combine_bounds.simps)
    with inv \<open>i = n\<close> show ?thesis by simp
  next
    case True
    let ?b = "?ds ! nat i"
    let ?st1 = "record_call (Call_GetDisplayBounds (Getenv st) i) st"
    have g: "GetDisplayBounds p i st = (?b, ?st1)"
      using True 1(2,5) by (simp add: GetDisplayBounds_def)
    let ?minX1 = "(if i = 0 \<or> X (Min_pt ?b) < minX then X (Min_pt ?b) else minX)"
    let ?minY1 = "(if i = 0 \<or> Y (Min_pt ?b) < minY then Y (Min_pt ?b) else minY)"
    let ?maxX1 = "(if i = 0 \<or> X (Max_pt ?b) > maxX then X (Max_pt ?b) else maxX)"
    let ?maxY1 = "(if i = 0 \<or> Y (Max_pt ?b) > maxY then Y (Max_pt ?b) else maxY)"
    have lt: "nat i < length ?ds" using True 1(2,5) by simp
    have tk: "take (nat (i + 1)) ?ds = take (nat i) ?ds @ [?b]"
      using lt 1(2) by (simp add: nat_add_distrib take_Suc_conv_app_nth)
    have inv: "(?minX1, ?minY1, ?maxX1, ?maxY1) = bounding_box (take (nat (i + 1)) ?ds)"
    proof (cases "i = 0")
      case True
      then show ?thesis using tk by (simp add: bounding_box_single)
    next
      case False
      with 1(2) have pos: "0 < i" by simp
      then have ne: "take (nat i) ?ds \<noteq> []" using lt by auto
      have "bounding_box (take (nat i) ?ds) = (minX, minY, maxX, maxY)"
        using 1(6) [OF pos] by simp
      from bounding_box_snoc [OF ne this, of ?b] show ?thesis
        using False tk by simp
    qed
    have step: "combine_bounds p n (i + 1) (?minX1, ?minY1, ?maxX1, ?maxY1) ?st1 =
        (bounding_box (display_bounds p (Getenv ?st1)),
         record_calls (map (Call_GetDisplayBounds (Getenv ?st1)) [i + 1..n - 1]) ?st1)"
      using True 1(2,4,5) inv
      by (intro 1(1) [OF True refl g [symmetric] refl refl refl refl]) simp_all
    have up: "[i..n - 1] = i # [i + 1..n - 1]"
      using True by (simp add: upto_rec1)
    show ?thesis
      using True g step up
      by (simp add: combine_bounds.simps [of p n i] record_calls_Cons)
  qed
qed


subsection \<open>The paths of Capture\<close>

lemma NumActiveDisplays_eq:
  "NumActiveDisplays p st =
     (int (length (display_bounds p (Getenv st))), record_call (Call_NumActiveDisplays (Getenv st)) st)"
  by (simp add: NumActiveDisplays_def)

lemma combine_bounds_all:
  assumes "display_bounds p (Getenv st) \<noteq> []"
  shows "combine_bounds p (int (length (display_bounds p (Getenv st)))) 0 (0, 0, 0, 0) st =
      (bounding_box (display_bounds p (Getenv st)),
       record_calls (map (Call_GetDisplayBounds (Getenv st))
         [0..int (length (display_bounds p (Getenv st))) - 1]) st)"
  using assms by (intro combine_bounds_loop) simp_all

lemma CaptureRect_returned:
  "(case CaptureRect p r st of (res, st3) \<Rightarrow>
      (case res of Inl e \<Rightarrow> (Inl (Mechanism e), st3) | Inr img \<Rightarrow> (Inr img, st3))) =
   (returned (capture_rect p (Getenv st) r), record_call (Call_CaptureRect (Getenv st) r) st)"
  by (simp add: CaptureRect_def returned_def split: sum.splits)

lemma X11_Capture_body_region:
  "Region opts = Some r \<Longrightarrow>
   X11_Capture_body p opts st =
     (returned (capture_rect p (Getenv st) r), record_calls [Call_CaptureRect (Getenv st) r] st)"
  unfolding X11_Capture_body_def
  by (simp add: CaptureRect_returned [unfolded split_def] split_def Let_def
      record_calls_def record_call_def)

lemma X11_Capture_body_all:
  assumes "Region opts = None" and "Monitor opts = - 1"
    and "display_bounds p (Getenv st) \<noteq> []"
    and bb: "bounding_box (display_bounds p (Getenv st)) = (a, b, c, d)"
  shows "X11_Capture_body p opts st =
          (returned (capture_rect p (Getenv st) (Rect a b c d)),
           record_calls
             ([Call_NumActiveDisplays (Getenv st)] @
              map (Call_GetDisplayBounds (Getenv st))
                [0..int (length (display_bounds p (Getenv st))) - 1] @
              [Call_CaptureRect (Getenv st) (Rect a b c d)]) st)"
proof -
  let ?d = "Getenv st"
  let ?ds = "display_bounds p ?d"
  let ?st1 = "record_call (Call_NumActiveDisplays ?d) st"
  let ?st2 = "record_calls (map (Call_GetDisplayBounds ?d) [0..int (length ?ds) - 1]) ?st1"
  have ne: "display_bounds p (Getenv ?st1) \<noteq> []" using assms(3) by simp
  have loop: "combine_bounds p (int (length ?ds)) 0 (0, 0, 0, 0) ?st1 = ((a, b, c, d), ?st2)"
    using combine_bounds_all [OF ne] bb by simp
  have "X11_Capture_body p opts st =
      (case CaptureRect p (Rect a b c d) ?st2 of (res, st3) \<Rightarrow>
        (case res of Inl e \<Rightarrow> (Inl (Mechanism e), st3) | Inr img \<Rightarrow> (Inr img, st3)))"
    unfolding X11_Capture_body_def NumActiveDisplays_eq
    using assms(1,2,3) by (simp add: loop)
  also have "\<dots> = (returned (capture_rect p ?d (Rect a b c d)),
      record_call (Call_CaptureRect ?d (Rect a b c d)) ?st2)"
    unfolding CaptureRect_returned by simp
  also have "record_call (Call_CaptureRect ?d (Rect a b c d)) ?st2 =
      record_calls ([Call_NumActiveDisplays ?d] @ map (Call_GetDisplayBounds ?d)
         [0..int (length ?ds) - 1] @ [Call_CaptureRect ?d (Rect a b c d)]) st"
    by (simp add: record_calls_def record_call_def)
  finally show ?thesis .
qed

lemma X11_Capture_body_none:
  assumes "Region opts = None" and "display_bounds p (Getenv st) = []"
  shows "X11_Capture_body p opts st =
          (Inl NoActiveDisplays, record_calls [Call_NumActiveDisplays (Getenv st)] st)"
  unfolding X11_Capture_body_def NumActiveDisplays_eq
  using assms by (simp add: record_calls_def record_call_def)

lemma X11_Capture_body_out_of_range:
  assumes "Region opts = None" and "Monitor opts \<noteq> - 1"
    and "display_bounds p (Getenv st) \<noteq> []"
    and "Monitor opts < 0 \<or> int (length (display_bounds p (Getenv st))) \<le> Monitor opts"
  shows "X11_Capture_body p opts st =
          (Inl (MonitorOutOfRange (Monitor opts) (int (length (display_bounds p (Getenv st))) - 1)),
           record_calls [Call_NumActiveDisplays (Getenv st)] st)"
  unfolding X11_Capture_body_def NumActiveDisplays_eq
  using assms by (simp add: record_calls_def record_call_def)

lemma X11_Capture_body_one:
  assumes "Region opts = None" and "0 \<le> Monitor opts"
    and "Monitor opts < int (length (display_bounds p (Getenv st)))"
  shows "X11_Capture_body p opts st =
          (returned (capture_rect p (Getenv st) (display_bounds p (Getenv st) ! nat (Monitor opts))),
           record_calls
             [Call_NumActiveDisplays (Getenv st),
              Call_GetDisplayBounds (Getenv st) (Monitor opts),
              Call_CaptureRect (Getenv st) (display_bounds p (Getenv st) ! nat (Monitor opts))] st)"
proof -
  let ?d = "Getenv st"
  let ?ds = "display_bounds p ?d"
  let ?st1 = "record_call (Call_NumActiveDisplays ?d) st"
  let ?st2 = "record_call (Call_GetDisplayBounds ?d (Monitor opts)) ?st1"
  have ne: "?ds \<noteq> []" using assms(2,3) by auto
  have g: "GetDisplayBounds p (Monitor opts) ?st1 = (?ds ! nat (Monitor opts), ?st2)"
    using assms(2,3) by (simp add: GetDisplayBounds_def)
  have "X11_Capture_body p opts st =
      (case CaptureRect p (?ds ! nat (Monitor opts)) ?st2 of (res, st3) \<Rightarrow>
        (case res of Inl e \<Rightarrow> (Inl (Mechanism e), st3) | Inr img \<Rightarrow> (Inr img, st3)))"
    unfolding X11_Capture_body_def NumActiveDisplays_eq
    using assms ne by (simp add: g)
  also have "\<dots> = (returned (capture_rect p ?d (?ds ! nat (Monitor opts))),
      record_call (Call_CaptureRect ?d (?ds ! nat (Monitor opts))) ?st2)"
    unfolding CaptureRect_returned by simp
  also have "record_call (Call_CaptureRect ?d (?ds ! nat (Monitor opts))) ?st2 =
      record_calls [Call_NumActiveDisplays ?d, Call_GetDisplayBounds ?d (Monitor opts),
         Call_CaptureRect ?d (?ds ! nat (Monitor opts))] st"
    by (simp add: record_calls_def record_call_def)
  finally show ?thesis .
qed

text \<open>\<open>Capture\<close> runs its body under the display it addresses and then the cleanup.\<close>

lemma X11_Capture_eq:
  "X11_Capture p opts st =
     (fst (X11_Capture_body p opts (snd (ensureDisplay opts st))),
      run_cleanup (fst (ensureDisplay opts st))
        (snd (X11_Capture_body p opts (snd (ensureDisplay opts st)))))"
  by (simp add: X11_Capture_def split_def Let_def)

subsection \<open>The paths of ListMonitors\<close>

lemma fill_monitors_loop:
  "0 \<le> i \<Longrightarrow> i \<le> n \<Longrightarrow> n = int (length (display_bounds p (Getenv st))) \<Longrightarrow>
   length monitors = nat n \<Longrightarrow>
   (\<forall>j < nat i. monitors ! j = monitor_at (display_bounds p (Getenv st)) j) \<Longrightarrow>
   fill_monitors p n i monitors st =
     (map (monitor_at (display_bounds p (Getenv st))) [0..<nat n],
      record_calls (map (Call_GetDisplayBounds (Getenv st)) [i..n - 1]) st)"
proof (induction p n i monitors st rule: fill_monitors.induct)
  case (1 p n i monitors st)
  let ?ds = "display_bounds p (Getenv st)"
  show ?case
  proof (cases "i < n")
    case False
    with 1 have eq: "i = n" by simp
    have "monitors = map (monitor_at ?ds) [0..<nat n]"
      using 1(5,6) eq by (intro nth_equalityI) simp_all
    moreover have "fill_monitors p n i monitors st = (monitors, st)"
      using False by (simp add: fill_monitors.simps)
    ultimately show ?thesis using eq by simp
  next
    case True
    let ?b = "?ds ! nat i"
    let ?st1 = "record_call (Call_GetDisplayBounds (Getenv st) i) st"
    let ?ms = "monitors[nat i := \<lparr>Index = i, Name = ''Display '' @ Itoa i, Bounds = ?b\<rparr>]"
    have g: "GetDisplayBounds p i st = (?b, ?st1)"
      using True 1(2,4) by (simp add: GetDisplayBounds_def)
    have new: "\<lparr>Index = i, Name = ''Display '' @ Itoa i, Bounds = ?b\<rparr> = monitor_at ?ds (nat i)"
      using 1(2) by (simp add: monitor_at_def)
    have inv: "\<forall>j < nat (i + 1). ?ms ! j = monitor_at (display_bounds p (Getenv ?st1)) j"
    proof (intro allI impI)
      fix j assume "j < nat (i + 1)"
      then have "j < nat i \<or> j = nat i" using 1(2) by auto
      moreover have "nat i < length monitors" using True 1(2,5) by simp
      ultimately show "?ms ! j = monitor_at (display_bounds p (Getenv ?st1)) j"
        using 1(6) new by (auto simp: nth_list_update)
    qed
    have step: "fill_monitors p n (i + 1) ?ms ?st1 =
        (map (monitor_at (display_bounds p (Getenv ?st1))) [0..<nat n],
         record_calls (map (Call_GetDisplayBounds (Getenv ?st1)) [i + 1..n - 1]) ?st1)"
      using True 1(2,4,5) inv
      by (intro 1(1) [OF True refl g [symmetric]]) simp_all
    have up: "[i..n - 1] = i # [i + 1..n - 1]"
      using True by (simp add: upto_rec1)
    show ?thesis
      using True g step up
      by (simp add: fill_monitors.simps [of p n i] record_calls_Cons)
  qed
qed

lemma Getenv_Setenv_default: "Getenv st = [] \<Longrightarrow> Getenv (Setenv '':0'' st) = '':0''"
  by (simp add: Getenv_def Setenv_def)

lemma loop0:
  assumes "display_bounds p (Getenv st) \<noteq> []"
  shows "fill_monitors p (int (length (display_bounds p (Getenv st)))) 0
          (replicate (length (display_bounds p (Getenv st))) zero_Monitor) st =
        (map (monitor_at (display_bounds p (Getenv st))) [0..<length (display_bounds p (Getenv st))],
         record_calls (map (Call_GetDisplayBounds (Getenv st))
            [0..int (length (display_bounds p (Getenv st))) - 1]) st)"
proof -
  have "fill_monitors p (int (length (display_bounds p (Getenv st)))) 0
          (replicate (length (display_bounds p (Getenv st))) zero_Monitor) st =
     (map (monitor_at (display_bounds p (Getenv st))) [0..<nat (int (length (display_bounds p (Getenv st))))],
      record_calls (map (Call_GetDisplayBounds (Getenv st)) [0..int (length (display_bounds p (Getenv st))) - 1]) st)"
    by (rule fill_monitors_loop) simp_all
  then show ?thesis by simp
qed

lemma list_from:
  "X11_ListMonitors p st =
     (case NumActiveDisplays p (if Getenv st = [] then Setenv '':0'' st else st) of
        (n, st2) \<Rightarrow>
          if n = 0 then (Inl NoActiveDisplays, st2)
          else (case fill_monitors p n 0 (replicate (nat n) zero_Monitor) st2 of
                  (monitors, st3) \<Rightarrow> (Inr monitors, st3)))"
  unfolding X11_ListMonitors_def Let_def ..

lemma list_none:
  assumes "display_bounds p (Getenv st1) = []"
  shows "(case NumActiveDisplays p st1 of
        (n, st2) \<Rightarrow>
          if n = 0 then (Inl NoActiveDisplays, st2)
          else (case fill_monitors p n 0 (replicate (nat n) zero_Monitor) st2 of
                  (monitors, st3) \<Rightarrow> (Inr monitors, st3))) =
       (Inl NoActiveDisplays, record_calls [Call_NumActiveDisplays (Getenv st1)] st1)"
  unfolding NumActiveDisplays_eq using assms
  by (simp add: record_calls_def record_call_def)

lemma list_some:
  assumes "display_bounds p (Getenv st1) \<noteq> []"
  shows "(case NumActiveDisplays p st1 of
        (n, st2) \<Rightarrow>
          if n = 0 then (Inl NoActiveDisplays, st2)
          else (case fill_monitors p n 0 (replicate (nat n) zero_Monitor) st2 of
                  (monitors, st3) \<Rightarrow> (Inr monitors, st3))) =
       (Inr (map (monitor_at (display_bounds p (Getenv st1))) [0..<length (display_bounds p (Getenv st1))]),
        record_calls (Call_NumActiveDisplays (Getenv st1) #
           map (Call_GetDisplayBounds (Getenv st1))
             [0..int (length (display_bounds p (Getenv st1))) - 1]) st1)"
proof -
  let ?d = "Getenv st1"
  let ?ds = "display_bounds p ?d"
  let ?st2 = "record_call (Call_NumActiveDisplays ?d) st1"
  have ne: "display_bounds p (Getenv ?st2) \<noteq> []" using assms by simp
  have loop: "fill_monitors p (int (length ?ds)) 0 (replicate (length ?ds) zero_Monitor) ?st2 =
        (map (monitor_at ?ds) [0..<length ?ds],
         record_calls (map (Call_GetDisplayBounds ?d) [0..int (length ?ds) - 1]) ?st2)"
    using loop0 [OF ne] by simp
  show ?thesis
    unfolding NumActiveDisplays_eq using assms
    by (simp add: loop record_calls_Cons)
qed

lemma Getenv_list_target:
  "Getenv (if Getenv st = [] then Setenv '':0'' st else st) = list_target st"
  by (simp add: list_target_def Getenv_Setenv_default)

lemma X11_ListMonitors_none:
  assumes "display_bounds p (list_target st) = []"
  shows "fst (X11_ListMonitors p st) = Inl NoActiveDisplays"
proof -
  let ?st1 = "if Getenv st = [] then Setenv '':0'' st else st"
  have "display_bounds p (Getenv ?st1) = []"
    unfolding Getenv_list_target by (rule assms)
  from list_none [OF this] show ?thesis
    by (simp only: list_from fst_conv)
qed

lemma X11_ListMonitors_some:
  assumes "display_bounds p (list_target st) \<noteq> []"
  shows "fst (X11_ListMonitors p st) =
          Inr (map (monitor_at (display_bounds p (list_target st)))
                 [0..<length (display_bounds p (list_target st))])"
proof -
  let ?st1 = "if Getenv st = [] then Setenv '':0'' st else st"
  have "display_bounds p (Getenv ?st1) \<noteq> []"
    unfolding Getenv_list_target by (rule assms)
  from list_some [OF this] show ?thesis
    by (simp only: list_from fst_conv Getenv_list_target)
qed

lemma monitor_at_fields:
  "map Index (map (monitor_at ds) [0..<length ds]) = map int [0..<length ds]"
  "map Bounds (map (monitor_at ds) [0..<length ds]) = ds"
  by (simp_all add: monitor_at_def map_nth comp_def)

subsection \<open>The variable DISPLAY\<close>

lemma X11_Capture_body_frame: "\<exists>cs. snd (X11_Capture_body p opts st) = record_calls cs st"
proof (cases "Region opts")
  case (Some r)
  then show ?thesis by (auto simp: X11_Capture_body_region)
next
  case None
  show ?thesis
  proof (cases "display_bounds p (Getenv st) = []")
    case True
    with None show ?thesis by (auto simp: X11_Capture_body_none)
  next
    case ne: False
    show ?thesis
    proof (cases "Monitor opts = - 1")
      case True
      obtain a b c d where "bounding_box (display_bounds p (Getenv st)) = (a, b, c, d)"
        by (cases "bounding_box (display_bounds p (Getenv st))") auto
      from X11_Capture_body_all [OF None True ne this] show ?thesis by auto
    next
      case m: False
      show ?thesis
      proof (cases "Monitor opts < 0 \<or> int (length (display_bounds p (Getenv st))) \<le> Monitor opts")
        case True
        from X11_Capture_body_out_of_range [OF None m ne True] show ?thesis by auto
      next
        case False
        then have "0 \<le> Monitor opts" "Monitor opts < int (length (display_bounds p (Getenv st)))"
          by auto
        from X11_Capture_body_one [OF None this] show ?thesis by auto
      qed
    qed
  qed
qed

lemma DISPLAY_record_calls [simp]: "DISPLAY (record_calls cs st) = DISPLAY st"
  by (simp add: record_calls_def)

lemma originalDisplay_record_calls [simp]: "originalDisplay (record_calls cs st) = originalDisplay st"
  by (simp add: record_calls_def)

lemma run_cleanup_record_calls:
  "DISPLAY (run_cleanup cl (record_calls cs st)) = DISPLAY (run_cleanup cl st)"
  by (simp add: run_cleanup_def Setenv_def Unsetenv_def record_calls_def split: cleanup.splits)

lemma ensureDisplay_restored:
  assumes "env_ok st"
  shows "DISPLAY (run_cleanup (fst (ensureDisplay opts st)) (snd (ensureDisplay opts st))) =
           (if DISPLAY st = Some [] then None else DISPLAY st)"
  using assms
  by (cases "DISPLAY st")
     (auto simp: ensureDisplay_def setDisplay_def run_cleanup_def Setenv_def Unsetenv_def
        Getenv_def env_ok_def)

lemma X11_Capture_DISPLAY:
  assumes "env_ok st"
  shows "DISPLAY (snd (X11_Capture p opts st)) = (if DISPLAY st = Some [] then None else DISPLAY st)"
proof -
  obtain cs where "snd (X11_Capture_body p opts (snd (ensureDisplay opts st))) =
      record_calls cs (snd (ensureDisplay opts st))"
    using X11_Capture_body_frame by blast
  then show ?thesis
    using ensureDisplay_restored [OF assms, of opts]
    by (simp add: X11_Capture_eq run_cleanup_record_calls)
qed

lemma X11_ListMonitors_DISPLAY:
  "Getenv st \<noteq> [] \<Longrightarrow> DISPLAY (snd (X11_ListMonitors p st)) = DISPLAY st"
proof -
  assume a: "Getenv st \<noteq> []"
  show ?thesis
  proof (cases "display_bounds p (Getenv st) = []")
    case True
    from list_none [OF True] a show ?thesis by (simp add: list_from)
  next
    case False
    from list_some [OF False] a show ?thesis by (simp add: list_from)
  qed
qed

subsection \<open>The registry that New builds\<close>

lemma X11_Available_eq:
  "fst (X11_Available p st) = (display_bounds p (list_target st) \<noteq> [])"
  by (simp add: X11_Available_def NumActiveDisplays_eq Let_def Getenv_list_target)

lemma Getenv_originalDisplay [simp]: "Getenv (st\<lparr>originalDisplay := d\<rparr>) = Getenv st"
  by (simp add: Getenv_def)

lemma list_target_originalDisplay [simp]: "list_target (st\<lparr>originalDisplay := d\<rparr>) = list_target st"
  by (simp add: list_target_def)

lemma New_strategies:
  "strategies (fst (New p st)) = (if display_bounds p (list_target st) \<noteq> [] then [X11Strategy] else [])"
  using X11_Available_eq [of p "st\<lparr>originalDisplay := []\<rparr>"]
  by (simp add: New_def NewX11Strategy_def split_def Let_def)

lemma Getenv_New: "Getenv (snd (New p st)) = list_target st"
  by (simp add: New_def NewX11Strategy_def split_def Let_def X11_Available_def NumActiveDisplays_eq
      list_target_def Getenv_def Setenv_def record_call_def)

lemma find_first_of_filter:
  "find avail xs = (case filter avail xs of [] \<Rightarrow> None | x # rest \<Rightarrow> Some x)"
  by (induction xs) auto

lemma GetStrategy_first_of_filter:
  fixes c :: "'s Capturer"
  assumes "strategies c = filter avail candidates"
  shows "GetStrategy c =
      (case find avail candidates of None \<Rightarrow> Inl NoStrategyAvailable | Some s \<Rightarrow> Inr s)"
  using assms
  by (cases "filter avail candidates") (simp_all add: GetStrategy_def find_first_of_filter)

lemma list_target_idem: "Getenv st' = list_target st \<Longrightarrow> list_target st' = list_target st"
  by (simp add: list_target_def)

subsection \<open>Parsing a region\<close>

lemma Split_nonempty: "Split s sep \<noteq> []"
  by (induction s) (auto split: list.splits)

lemma Split_no_sep: "sep \<notin> set a \<Longrightarrow> Split a sep = [a]"
  by (induction a) auto

lemma Split_append: "sep \<notin> set a \<Longrightarrow> Split (a @ sep # b) sep = a # Split b sep"
  by (induction a) auto

lemma Split_four:
  assumes "sep \<notin> set c1" "sep \<notin> set c2" "sep \<notin> set c3" "sep \<notin> set c4"
  shows "Split (c1 @ sep # c2 @ sep # c3 @ sep # c4) sep = [c1, c2, c3, c4]"
  using assms by (simp add: Split_append Split_no_sep)

lemma parse_parts_four:
  assumes "Atoi (TrimSpace c1) = Some x" "Atoi (TrimSpace c2) = Some y"
    "Atoi (TrimSpace c3) = Some w" "Atoi (TrimSpace c4) = Some h"
  shows "parse_parts [c1, c2, c3, c4] 0 (replicate 4 0) = Inr [x, y, w, h]"
  using assms by (simp add: numeral_eq_Suc)

lemma parse_parts_length:
  "parse_parts parts i vals = Inr vals' \<Longrightarrow> length vals' = length vals"
  by (induction parts i vals rule: parse_parts.induct) (auto split: option.splits)

lemma parseRegion_well_formed: "parseRegion s = Inr r \<Longrightarrow> well_formed r"
  by (auto simp: parseRegion_def Let_def Rect_well_formed split: if_splits sum.splits)

lemma Atoi_in_int64: "Atoi s = Some v \<Longrightarrow> in_int64 v"
  by (auto simp: Atoi_def Let_def split: if_splits)

lemma wrap64_id: "in_int64 v \<Longrightarrow> wrap64 v = v"
proof -
  assume "in_int64 v"
  then have "0 \<le> v + 2 ^ 63" "v + 2 ^ 63 < 2 ^ 64"
    by (simp_all add: in_int64_def)
  then have "(v + 2 ^ 63) mod 2 ^ 64 = v + 2 ^ 63"
    by (rule mod_pos_pos_trivial)
  then show ?thesis by (simp add: wrap64_def)
qed

subsection \<open>The paths of SavePNG\<close>

lemma open_files_record_call [simp]: "open_files (record_call c st) = open_files st"
  by (simp add: record_call_def)

lemma files_record_call [simp]: "files (record_call c st) = files st"
  by (simp add: record_call_def)

lemma dirs_record_call [simp]: "dirs (record_call c st) = dirs st"
  by (simp add: record_call_def)

lemma SavePNG_mkdir_fails:
  assumes "filepath_Dir p path \<noteq> []" "filepath_Dir p path \<noteq> ''.''"
    and "mkdir_all p (filepath_Dir p path) = Some e"
  shows "SavePNG p img path lvl st =
          (Some (FailedCreateDirectory e), record_call (Call_MkdirAll (filepath_Dir p path)) st)"
  using assms by (simp add: SavePNG_def MkdirAll_def Let_def)

lemma SavePNG_after_mkdir:
  assumes "filepath_Dir p path \<noteq> [] \<and> filepath_Dir p path \<noteq> ''.'' \<longrightarrow>
           mkdir_all p (filepath_Dir p path) = None"
  shows "SavePNG p img path lvl st =
     (case Create p path (after_mkdir p path st) of
                (Some e, st2) \<Rightarrow> (Some (FailedCreateFile e), st2)
              | (None, st2) \<Rightarrow>
                  (case Encode p (File path) (intToCompressionLevel lvl) img st2 of
                     (Some e, st3) \<Rightarrow> (Some (FailedEncodePNG e), Close path st3)
                   | (None, st3) \<Rightarrow> (None, Close path st3)))"
  using assms by (simp add: SavePNG_def MkdirAll_def Let_def after_mkdir_def)

lemma calls_after_mkdir: "calls (after_mkdir p path st) = calls st @ mkdir_calls p path"
  by (simp add: after_mkdir_def mkdir_calls_def)

lemma open_files_after_mkdir [simp]: "open_files (after_mkdir p path st) = open_files st"
  by (simp add: after_mkdir_def)

lemma SavePNG_create_fails:
  assumes "filepath_Dir p path \<noteq> [] \<and> filepath_Dir p path \<noteq> ''.'' \<longrightarrow>
           mkdir_all p (filepath_Dir p path) = None"
    and "create_file p path = Some e"
  shows "SavePNG p img path lvl st =
          (Some (FailedCreateFile e), record_call (Call_Create path) (after_mkdir p path st))"
  using assms(2) by (simp add: SavePNG_after_mkdir [OF assms(1)] Create_def)

lemma SavePNG_created:
  assumes "filepath_Dir p path \<noteq> [] \<and> filepath_Dir p path \<noteq> ''.'' \<longrightarrow>
           mkdir_all p (filepath_Dir p path) = None"
    and "create_file p path = None"
  shows "fst (SavePNG p img path lvl st) =
           map_option FailedEncodePNG (snd (encode_png p (File path) (intToCompressionLevel lvl) img)) \<and>
         calls (snd (SavePNG p img path lvl st)) =
           calls st @ mkdir_calls p path @
           [Call_Create path, Call_Encode (File path) (intToCompressionLevel lvl), Call_Close path] \<and>
         open_files (snd (SavePNG p img path lvl st)) = open_files st \<and>
         files (snd (SavePNG p img path lvl st)) path =
           Some (fst (encode_png p (File path) (intToCompressionLevel lvl) img))"
  using assms(2)
  by (cases "encode_png p (File path) (intToCompressionLevel lvl) img")
     (auto simp: SavePNG_after_mkdir [OF assms(1)] Create_def Encode_def Close_def write_sink_def
        calls_after_mkdir split: option.splits)

lemma dirs_SavePNG_created:
  assumes "filepath_Dir p path \<noteq> []" "filepath_Dir p path \<noteq> ''.''"
    and "mkdir_all p (filepath_Dir p path) = None" and "create_file p path = None"
  shows "filepath_Dir p path \<in> dirs (snd (SavePNG p img path lvl st))"
proof -
  have m: "filepath_Dir p path \<noteq> [] \<and> filepath_Dir p path \<noteq> ''.'' \<longrightarrow>
           mkdir_all p (filepath_Dir p path) = None"
    using assms(3) by simp
  show ?thesis
    using assms(1,2,4)
    by (cases "encode_png p (File path) (intToCompressionLevel lvl) img")
       (auto simp: SavePNG_after_mkdir [OF m] Create_def Encode_def Close_def write_sink_def
          after_mkdir_def split: option.splits)
qed

subsection \<open>The paths of run\<close>

lemma parse_parts_four_iff:
  "parse_parts [a, b, c, d] 0 (replicate 4 0) = Inr vals \<longleftrightarrow>
     (\<exists>x y w h. Atoi (TrimSpace a) = Some x \<and> Atoi (TrimSpace b) = Some y \<and>
        Atoi (TrimSpace c) = Some w \<and> Atoi (TrimSpace d) = Some h \<and> vals = [x, y, w, h])"
  by (auto simp: numeral_eq_Suc split: option.splits)

lemma length_four: "length xs = 4 \<Longrightarrow> \<exists>a b c d. xs = [a, b, c, d]"
  by (auto simp: length_Suc_conv numeral_eq_Suc)

lemma parseRegion_Inr_iff:
  "parseRegion s = Inr r \<longleftrightarrow>
     (\<exists>x y w h. map (\<lambda>part. Atoi (TrimSpace part)) (Split s (CHR '','')) =
                  [Some x, Some y, Some w, Some h] \<and>
               r = Rect x y (add64 x w) (add64 y h))"
proof (cases "length (Split s (CHR '','')) = 4")
  case False
  then have "parseRegion s = Inl ExpectedRegion"
    by (simp add: parseRegion_def)
  moreover have "map (\<lambda>part. Atoi (TrimSpace part)) (Split s (CHR '','')) \<noteq> [Some x, Some y, Some w, Some h]"
    for x y w h
  proof
    assume "map (\<lambda>part. Atoi (TrimSpace part)) (Split s (CHR '','')) = [Some x, Some y, Some w, Some h]"
    then have "length (map (\<lambda>part. Atoi (TrimSpace part)) (Split s (CHR '',''))) = 4"
      by simp
    with False show False by simp
  qed
  ultimately show ?thesis by simp
next
  case True
  then obtain a b c d where sp: "Split s (CHR '','') = [a, b, c, d]"
    using length_four by blast
  have "parseRegion s =
      (case parse_parts [a, b, c, d] 0 (replicate 4 0) of
         Inl err \<Rightarrow> Inl err
       | Inr vals \<Rightarrow> Inr (Rect (vals ! 0) (vals ! 1) (add64 (vals ! 0) (vals ! 2))
                          (add64 (vals ! 1) (vals ! 3))))"
    unfolding parseRegion_def sp Let_def by simp
  note pr = this
  show ?thesis
  proof (cases "parse_parts [a, b, c, d] 0 (replicate 4 0)")
    case (Inl err)
    then have no: "\<not> (\<exists>x y w h. Atoi (TrimSpace a) = Some x \<and> Atoi (TrimSpace b) = Some y \<and>
        Atoi (TrimSpace c) = Some w \<and> Atoi (TrimSpace d) = Some h)"
      using parse_parts_four_iff [of a b c d] by (metis sum.distinct(1))
    have "parseRegion s = Inl err"
      using pr Inl by (simp del: parse_parts.simps)
    with no show ?thesis unfolding sp by auto
  next
    case (Inr vals)
    then obtain x y w h where at: "Atoi (TrimSpace a) = Some x" "Atoi (TrimSpace b) = Some y"
        "Atoi (TrimSpace c) = Some w" "Atoi (TrimSpace d) = Some h" and v: "vals = [x, y, w, h]"
      using parse_parts_four_iff [of a b c d vals] by blast
    have "parseRegion s = Inr (Rect x y (add64 x w) (add64 y h))"
      using pr Inr v by (simp del: parse_parts.simps)
    with at show ?thesis unfolding sp by auto
  qed
qed

lemma parse_parts_Inl:
  "parse_parts parts i vals = Inl e \<Longrightarrow>
     \<exists>part \<in> set parts. e = InvalidNumber part \<and> Atoi (TrimSpace part) = None"
  by (induction parts i vals rule: parse_parts.induct) (auto split: option.splits)

lemma parseRegion_Inl:
  assumes "parseRegion s = Inl e"
  shows "e = ExpectedRegion \<or>
         (\<exists>part \<in> set (Split s (CHR '','')). e = InvalidNumber part \<and> Atoi (TrimSpace part) = None)"
proof (cases "length (Split s (CHR '','')) = 4")
  case False
  with assms show ?thesis by (simp add: parseRegion_def)
next
  case True
  with assms have "parse_parts (Split s (CHR '','')) 0 (replicate 4 0) = Inl e"
    by (simp add: parseRegion_def Let_def split: sum.splits)
  from parse_parts_Inl [OF this] show ?thesis by blast
qed

lemma calls_New: "calls (snd (New p st)) = calls st @ [Call_NumActiveDisplays (list_target st)]"
  by (simp add: New_def NewX11Strategy_def split_def Let_def X11_Available_def NumActiveDisplays_eq
      list_target_def Getenv_def Setenv_def record_call_def)

lemma calls_Printf [simp]: "calls (Printf text st) = calls st"
  by (simp add: Printf_def)

lemma calls_Encode: "\<exists>cs. calls (snd (Encode p k level img st)) = calls st @ cs"
  by (cases "encode_png p k level img") (simp add: Encode_def write_sink_def split: sink.splits)

lemma calls_WritePNG: "\<exists>cs. calls (snd (WritePNG p img w lvl st)) = calls st @ cs"
  using calls_Encode [of p w "intToCompressionLevel lvl" img st]
  by (cases "Encode p w (intToCompressionLevel lvl) img st")
     (auto simp: WritePNG_def split: option.splits)

lemma calls_openFile: "\<exists>cs. calls (snd (openFile p path st)) = calls st @ cs"
  by (simp add: openFile_def Let_def)

lemma calls_SavePNG: "\<exists>cs. calls (snd (SavePNG p img path lvl st)) = calls st @ cs"
proof (cases "(filepath_Dir p path \<noteq> [] \<and> filepath_Dir p path \<noteq> ''.'') \<and>
    mkdir_all p (filepath_Dir p path) \<noteq> None")
  case True
  then obtain e where "mkdir_all p (filepath_Dir p path) = Some e" by auto
  with True show ?thesis by (simp add: SavePNG_mkdir_fails)
next
  case False
  then have m: "filepath_Dir p path \<noteq> [] \<and> filepath_Dir p path \<noteq> ''.'' \<longrightarrow>
           mkdir_all p (filepath_Dir p path) = None" by auto
  show ?thesis
  proof (cases "create_file p path")
    case None
    from SavePNG_created [OF m None, of img lvl st] show ?thesis by simp
  next
    case (Some e)
    show ?thesis
      by (simp add: SavePNG_create_fails [OF m Some] calls_after_mkdir)
  qed
qed

lemma run_region_error:
  assumes "region fl \<noteq> []" and "\<not> listMon fl" and "parseRegion (region fl) = Inl e"
  shows "run p fl args st = (Some (InvalidRegion e), snd (New p st))"
  using assms by (simp add: run_def split_def Let_def)

lemma X11_Capture_region_calls:
  assumes "Region opts = Some r"
  shows "calls (snd (X11_Capture p opts st)) = calls st @ [Call_CaptureRect (display_target opts st) r]"
  using assms by (simp add: X11_Capture_eq X11_Capture_body_region display_target_def)

lemma run_region_capture:
  assumes "region fl \<noteq> []" and "\<not> listMon fl" and "parseRegion (region fl) = Inr r"
    and "display_bounds p (list_target st) \<noteq> []"
    and "opts = \<lparr>Monitor = monitor fl, Region = Some r, WindowID = 0, Display = display fl\<rparr>"
  shows "\<exists>rest. calls (snd (run p fl args st)) =
           calls st @ [Call_NumActiveDisplays (list_target st),
                       Call_CaptureRect (display_target opts (snd (New p st))) r] @ rest"
proof -
  let ?c = "fst (New p st)" and ?st1 = "snd (New p st)"
  define path1 where "path1 = (if length args > 0 then args ! 0 else output_path fl)"
  define path where "path = (if path1 = [] then GenerateFilename p ''screenshot'' else path1)"
  let ?lvl = "getCompressionLevel fl"
  have reg: "GetStrategy ?c = Inr X11Strategy"
    using assms(4) by (simp add: GetStrategy_def New_strategies)
  have r: "Region opts = Some r" using assms(5) by simp
  obtain res st2 where cap: "X11_Capture p opts ?st1 = (res, st2)"
    by (cases "X11_Capture p opts ?st1") auto
  have c2: "calls st2 = calls st @ [Call_NumActiveDisplays (list_target st),
      Call_CaptureRect (display_target opts ?st1) r]"
    using X11_Capture_region_calls [OF r, of p ?st1] cap by (simp add: calls_New)
  have run_eq: "run p fl args st =
      (if to_stdout fl then
         (case Capture p ?c opts ?st1 of
            (Inl err, st2) \<Rightarrow> (Some (CaptureFailed err), st2)
          | (Inr img, st2) \<Rightarrow> WritePNG p img Stdout ?lvl st2)
       else
         (case CaptureToFile p ?c opts path ?lvl ?st1 of
            (Some err, st2) \<Rightarrow> (Some err, st2)
          | (None, st2) \<Rightarrow>
              (let st3 = Printf (''Screenshot saved: '' @ path @ [CHR 0x0A]) st2 in
               if view fl then
                 (case openFile p path st3 of
                    (Some err, st4) \<Rightarrow> (Some (FailedOpenViewer err), st4)
                  | (None, st4) \<Rightarrow> (None, st4))
               else (None, st3))))"
    using assms(1,2,3,5) unfolding path_def path1_def by (simp add: run_def split_def Let_def)
  show ?thesis
  proof (cases "to_stdout fl")
    case True
    show ?thesis
    proof (cases res)
      case (Inl err)
      then show ?thesis
        using True cap c2 by (simp add: run_eq Capture_registered [OF reg])
    next
      case (Inr img)
      obtain cs where "calls (snd (WritePNG p img Stdout ?lvl st2)) = calls st2 @ cs"
        using calls_WritePNG [of p img Stdout ?lvl st2] by auto
      then show ?thesis
        using True cap c2 Inr by (simp add: run_eq Capture_registered [OF reg])
    qed
  next
    case False
    have ctf: "CaptureToFile p ?c opts path ?lvl ?st1 =
        (case res of Inl err \<Rightarrow> (Some (CaptureFailed err), st2)
         | Inr img \<Rightarrow> SavePNG p img path ?lvl st2)"
      using cap by (simp add: CaptureToFile_def reg split: sum.splits)
    show ?thesis
    proof (cases res)
      case (Inl err)
      then show ?thesis
        using False c2 by (simp add: run_eq ctf)
    next
      case (Inr img)
      obtain e st3 where sv: "SavePNG p img path ?lvl st2 = (e, st3)"
        by (cases "SavePNG p img path ?lvl st2") auto
      obtain cs where c3: "calls st3 = calls st2 @ cs"
        using calls_SavePNG [of p img path ?lvl st2] sv by auto
      show ?thesis
      proof (cases e)
        case (Some err)
        then show ?thesis
          using False c2 c3 Inr sv by (simp add: run_eq ctf)
      next
        case None
        let ?st4 = "Printf (''Screenshot saved: '' @ path @ [CHR 0x0A]) st3"
        obtain cs' where c5: "calls (snd (openFile p path ?st4)) = calls ?st4 @ cs'"
          using calls_openFile [of p path ?st4] by auto
        show ?thesis
        proof (cases "view fl")
          case True
          then show ?thesis
            using False c2 c3 c5 Inr sv None
            by (cases "openFile p path ?st4")
               (auto simp: run_eq ctf Let_def split: option.splits)
        next
          case nv: False
          then show ?thesis
            using False c2 c3 Inr sv None by (simp add: run_eq ctf Let_def)
        qed
      qed
    qed
  qed
qed

subsection \<open>The concrete platform\<close>

lemma demo_registered: "GetStrategy demo_capturer = Inr X11Strategy"
  by (simp add: GetStrategy_def demo_capturer_def)

lemma demo_facts:
  "calls (demo_state e) = []"
  "DISPLAY (demo_state e) = e"
  "capture_rect demo_platform d r = Inr ''pixels''"
  "display_bounds demo_platform d = (if d = '':0'' then two_displays else [])"
  by (simp_all add: demo_state_def demo_platform_def)

lemma demo_target_default: "display_target (demo_options m r []) (demo_state None) = '':0''"
  by (simp add: display_target_def ensureDisplay_def setDisplay_def Getenv_def Setenv_def
      demo_options_def demo_state_def)

lemma demo_target_override:
  "d \<noteq> [] \<Longrightarrow> CHR 0x00 \<notin> set d \<Longrightarrow> display_target (demo_options m r d) (demo_state e) = d"
  by (simp add: display_target_def ensureDisplay_def setDisplay_def Getenv_def Setenv_def
      demo_options_def demo_state_def)

lemma demo_list_target: "list_target (demo_state None) = '':0''"
  by (simp add: list_target_def Getenv_def demo_facts)

lemma demo_list_target_set: "d \<noteq> [] \<Longrightarrow> list_target (demo_state (Some d)) = d"
  by (simp add: list_target_def Getenv_def demo_facts)

subsection \<open>The active strategy\<close>

text \<open>
  C4. A registry holds, in the order of registration, the registered candidates whose
  availability check succeeded: \<open>New\<close> appends a candidate when its check succeeds,
  and the X11 strategy is the only candidate of this build. On every such registry, over
  any candidates and any outcome of their checks, \<open>GetStrategy\<close> returns the first
  candidate in registration order whose check succeeded, never one before it or after
  it, and fails with \<open>NoStrategyAvailable\<close>, returning no strategy, when no check
  succeeded. Every strategy that \<open>New\<close> has registered is available in the state \<open>New\<close>
  leaves.
\<close>

theorem active_strategy_first_available:
  fixes c :: "'s Capturer"
  shows
  "(strategies c = filter avail candidates \<longrightarrow>
      (\<forall>i < length candidates.
          avail (candidates ! i) \<and> (\<forall>j < i. \<not> avail (candidates ! j)) \<longrightarrow>
          GetStrategy c = Inr (candidates ! i)) \<and>
      ((\<forall>s \<in> set candidates. \<not> avail s) \<longrightarrow> GetStrategy c = Inl NoStrategyAvailable) \<and>
      GetStrategy c =
        (case find avail candidates of None \<Rightarrow> Inl NoStrategyAvailable | Some s \<Rightarrow> Inr s)) \<and>
   strategies (fst (New p st)) = filter (\<lambda>s. fst (Strategy_Available p s st)) [X11Strategy] \<and>
   (\<forall>s \<in> set (strategies (fst (New p st))). fst (Strategy_Available p s (snd (New p st))))"
proof (intro conjI impI)
  assume reg: "strategies c = filter avail candidates"
  show first: "GetStrategy c =
      (case find avail candidates of None \<Rightarrow> Inl NoStrategyAvailable | Some s \<Rightarrow> Inr s)"
    using reg by (simp add: GetStrategy_first_of_filter)
  show "\<forall>i < length candidates.
          avail (candidates ! i) \<and> (\<forall>j < i. \<not> avail (candidates ! j)) \<longrightarrow>
          GetStrategy c = Inr (candidates ! i)"
  proof (intro allI impI)
    fix i assume "i < length candidates"
      and "avail (candidates ! i) \<and> (\<forall>j < i. \<not> avail (candidates ! j))"
    then have "find avail candidates = Some (candidates ! i)"
      by (auto simp: find_Some_iff)
    with first show "GetStrategy c = Inr (candidates ! i)" by simp
  qed
  show "GetStrategy c = Inl NoStrategyAvailable" if "\<forall>s \<in> set candidates. \<not> avail s"
  proof -
    from that have "find avail candidates = None" by (simp add: find_None_iff)
    with first show ?thesis by simp
  qed
next
  show "strategies (fst (New p st)) = filter (\<lambda>s. fst (Strategy_Available p s st)) [X11Strategy]"
    by (simp add: New_strategies X11_Available_eq)
  show "\<forall>s \<in> set (strategies (fst (New p st))). fst (Strategy_Available p s (snd (New p st)))"
    using list_target_idem [OF Getenv_New, of p st]
    by (simp add: New_strategies X11_Available_eq)
qed

theorem active_strategy_first_available_witness:
  "GetStrategy \<lparr>strategies = [''x11'', ''framebuffer'']\<rparr> = Inr ''x11'' \<and>
   GetStrategy \<lparr>strategies = ([] :: string list)\<rparr> = Inl NoStrategyAvailable \<and>
   GetStrategy (fst (New demo_platform (demo_state None))) = Inr X11Strategy \<and>
   GetStrategy (fst (New demo_platform (demo_state (Some '':7'')))) = Inl NoStrategyAvailable \<and>
   fst (Strategy_Available demo_platform X11Strategy (snd (New demo_platform (demo_state None))))"
proof -
  let ?cands = "[''wayland'', ''x11'', ''framebuffer'']"
  have f: "strategies \<lparr>strategies = [''x11'', ''framebuffer'']\<rparr> =
      filter (\<lambda>s. s \<noteq> ''wayland'') ?cands"
    by simp
  have one: "(1::nat) < length ?cands" and av: "?cands ! 1 \<noteq> ''wayland''"
    and before: "\<forall>j < (1::nat). \<not> ?cands ! j \<noteq> ''wayland''"
    by simp_all
  have x11: "GetStrategy \<lparr>strategies = [''x11'', ''framebuffer'']\<rparr> = Inr (?cands ! 1)"
    using active_strategy_first_available
      [of "\<lparr>strategies = [''x11'', ''framebuffer'']\<rparr>" "\<lambda>s. s \<noteq> ''wayland''" ?cands
        demo_platform "demo_state None"]
      f one av before
    by blast
  have e: "strategies \<lparr>strategies = ([] :: string list)\<rparr> = filter (\<lambda>s. False) ?cands"
    by simp
  have none: "GetStrategy \<lparr>strategies = ([] :: string list)\<rparr> = Inl NoStrategyAvailable"
    using active_strategy_first_available
      [of "\<lparr>strategies = ([] :: string list)\<rparr>" "\<lambda>s. False" ?cands
        demo_platform "demo_state None"] e
    by blast
  have a: "fst (X11_Available demo_platform (demo_state None))"
    by (simp add: X11_Available_eq demo_list_target demo_facts two_displays_def)
  have b: "\<not> fst (X11_Available demo_platform (demo_state (Some '':7'')))"
    by (simp add: X11_Available_eq demo_list_target_set demo_facts)
  have n1: "strategies (fst (New demo_platform (demo_state None))) = [X11Strategy]"
    and n2: "fst (Strategy_Available demo_platform X11Strategy
                   (snd (New demo_platform (demo_state None))))"
    using active_strategy_first_available
      [of "\<lparr>strategies = ([] :: string list)\<rparr>" "\<lambda>s. False" ?cands
        demo_platform "demo_state None"] a
    by auto
  have n3: "strategies (fst (New demo_platform (demo_state (Some '':7'')))) = []"
    using active_strategy_first_available
      [of "\<lparr>strategies = ([] :: string list)\<rparr>" "\<lambda>s. False" ?cands
        demo_platform "demo_state (Some '':7'')"] b
    by simp
  show ?thesis
    using x11 none n1 n2 n3 by (simp add: GetStrategy_def)
qed

subsection \<open>The display target after a call\<close>

text \<open>
  What \<open>Capture\<close> does, over an environment without NUL bytes: it undoes every change
  it makes to \<open>DISPLAY\<close>, for an override and for the fallback \<open>:0\<close>, when it succeeds
  and when it fails. A variable that was unset or not empty has its value from before
  the call; a variable that was set to the empty string is left unset, so that
  \<open>os.Getenv\<close> reports what it reported before. \<open>ListMonitors\<close> leaves a configured
  \<open>DISPLAY\<close> as it is, and \<open>New\<close> always leaves \<open>DISPLAY\<close> configured.
\<close>

lemma Capture_restores_DISPLAY:
  assumes "env_ok st"
  shows "(DISPLAY st \<noteq> Some [] \<longrightarrow> DISPLAY (snd (Capture p c opts st)) = DISPLAY st) \<and>
         Getenv (snd (Capture p c opts st)) = Getenv st \<and>
         (Getenv st \<noteq> [] \<longrightarrow> DISPLAY (snd (ListMonitors p c st)) = DISPLAY st)"
proof (cases "GetStrategy c")
  case (Inl e)
  then show ?thesis by (simp add: Capture_def ListMonitors_def)
next
  case (Inr strat)
  from X11_Capture_DISPLAY [OF assms, of p opts] show ?thesis
    by (auto simp: Capture_registered [OF Inr] ListMonitors_registered [OF Inr]
        X11_ListMonitors_DISPLAY Getenv_def split: option.splits if_splits)
qed

lemma New_configures_DISPLAY: "Getenv (snd (New p st)) \<noteq> []"
  by (simp add: Getenv_New list_target_def)

text \<open>The fallback of \<open>ListMonitors\<close>, for every platform: over an unset or empty
  \<open>DISPLAY\<close> it returns with \<open>DISPLAY\<close> set to \<open>:0\<close>.\<close>

lemma X11_ListMonitors_keeps_fallback:
  assumes "Getenv st = []"
  shows "DISPLAY (snd (X11_ListMonitors p st)) = Some '':0''"
proof -
  have d: "DISPLAY (Setenv '':0'' st) = Some '':0''"
    by (simp add: Setenv_def)
  show ?thesis
  proof (cases "display_bounds p (Getenv (Setenv '':0'' st)) = []")
    case True
    from list_none [OF True] assms d show ?thesis by (simp add: list_from)
  next
    case False
    from list_some [OF False] assms d show ?thesis by (simp add: list_from)
  qed
qed

text \<open>
  C1. \<open>ListMonitors\<close> does not restore the fallback it applies. Called on the X11
  strategy in a process whose \<open>DISPLAY\<close> is unset, it sets \<open>DISPLAY\<close> to \<open>:0\<close> and
  returns with it still set, not with the unset state of before the call. \<open>Capture\<close>,
  in the same state, applies the same fallback and returns with \<open>DISPLAY\<close> unset again.
\<close>

theorem list_monitors_keeps_fallback_display:
  "DISPLAY (demo_state None) = None \<and>
   DISPLAY (snd (X11_ListMonitors demo_platform (demo_state None))) = Some '':0'' \<and>
   DISPLAY (snd (X11_Capture demo_platform (demo_options (- 1) None []) (demo_state None))) = None"
  by code_simp

subsection \<open>Region capture\<close>

text \<open>
  C5. When the request carries a region, and a strategy is registered, \<open>Capture\<close>
  asks the library for exactly that rectangle, on the display the call addresses, and
  returns the library's answer. That is the only call it makes to the library: the
  displays are not counted and no bounds are read, whatever an enumeration would give.
\<close>

theorem region_capture_bypasses_enumeration:
  assumes "GetStrategy c = Inr strat" and "Region opts = Some r"
  shows "fst (Capture p c opts st) = returned (capture_rect p (display_target opts st) r) \<and>
         calls (snd (Capture p c opts st)) =
           calls st @ [Call_CaptureRect (display_target opts st) r]"
  using assms
  by (simp add: Capture_registered X11_Capture_eq X11_Capture_body_region display_target_def)

theorem region_capture_bypasses_enumeration_witness:
  "display_bounds demo_platform '':7'' = [] \<and>
   fst (Capture demo_platform demo_capturer (demo_options (- 1) (Some (Rect 10 10 110 60)) '':7'')
          (demo_state None)) = Inr ''pixels'' \<and>
   calls (snd (Capture demo_platform demo_capturer
          (demo_options (- 1) (Some (Rect 10 10 110 60)) '':7'') (demo_state None))) =
     [Call_CaptureRect '':7'' (Rect 10 10 110 60)]"
proof -
  have r: "Region (demo_options (- 1) (Some (Rect 10 10 110 60)) '':7'') = Some (Rect 10 10 110 60)"
    by (simp add: demo_options_def)
  have t: "display_target (demo_options (- 1) (Some (Rect 10 10 110 60)) '':7'') (demo_state None) = '':7''"
    by (rule demo_target_override) simp_all
  show ?thesis
    using region_capture_bypasses_enumeration [OF demo_registered r, of demo_platform "demo_state None"]
    by (simp add: t demo_facts returned_def)
qed

subsection \<open>All monitors\<close>

text \<open>
  C2. With no region and the monitor index \<open>-1\<close>, over a non-empty list of displays
  whose bounds are well-formed rectangles (as \<open>image.Rect\<close> makes them),
  \<open>Capture\<close> counts the displays, reads the bounds of each in order and asks the library
  for one rectangle: left and top the least \<open>Min.X\<close> and \<open>Min.Y\<close>, right and bottom the
  greatest \<open>Max.X\<close> and \<open>Max.Y\<close> of all bounds. Over two displays of 1920 by 1080 side
  by side that is the rectangle from (0, 0) to (3840, 1080).
\<close>

theorem capture_all_monitors_bounding_box:
  assumes "GetStrategy c = Inr strat" and "Region opts = None" and "Monitor opts = - 1"
    and "ds = display_bounds p (display_target opts st)" and "ds \<noteq> []"
    and "\<forall>b\<in>set ds. well_formed b"
    and "requested =
          \<lparr>Min_pt = \<lparr>X = Min ((\<lambda>b. X (Min_pt b)) ` set ds), Y = Min ((\<lambda>b. Y (Min_pt b)) ` set ds)\<rparr>,
           Max_pt = \<lparr>X = Max ((\<lambda>b. X (Max_pt b)) ` set ds), Y = Max ((\<lambda>b. Y (Max_pt b)) ` set ds)\<rparr>\<rparr>"
  shows "fst (Capture p c opts st) = returned (capture_rect p (display_target opts st) requested) \<and>
         calls (snd (Capture p c opts st)) =
           calls st @ [Call_NumActiveDisplays (display_target opts st)] @
           map (Call_GetDisplayBounds (display_target opts st)) [0..int (length ds) - 1] @
           [Call_CaptureRect (display_target opts st) requested]"
proof -
  let ?st1 = "snd (ensureDisplay opts st)"
  obtain a b c' d where bb: "bounding_box ds = (a, b, c', d)"
    by (cases "bounding_box ds") auto
  have ord: "a \<le> c' \<and> b \<le> d"
    using bounding_box_ordered [OF assms(5,6) bb] .
  have req: "Rect a b c' d = requested"
    using ord bb assms(7) by (simp add: Rect_ordered bounding_box_def)
  have ds: "display_bounds p (Getenv ?st1) = ds"
    using assms(4) by (simp add: display_target_def)
  have body: "X11_Capture_body p opts ?st1 =
      (returned (capture_rect p (Getenv ?st1) (Rect a b c' d)),
       record_calls ([Call_NumActiveDisplays (Getenv ?st1)] @
          map (Call_GetDisplayBounds (Getenv ?st1)) [0..int (length ds) - 1] @
          [Call_CaptureRect (Getenv ?st1) (Rect a b c' d)]) ?st1)"
    using X11_Capture_body_all [OF assms(2,3), of p ?st1 a b c' d] assms(5) bb
    by (simp add: ds)
  show ?thesis
    using assms(1) by (simp add: Capture_registered X11_Capture_eq body req display_target_def)
qed

theorem capture_all_monitors_bounding_box_witness:
  "fst (Capture demo_platform demo_capturer (demo_options (- 1) None []) (demo_state None)) =
     Inr ''pixels'' \<and>
   calls (snd (Capture demo_platform demo_capturer (demo_options (- 1) None []) (demo_state None))) =
     [Call_NumActiveDisplays '':0'', Call_GetDisplayBounds '':0'' 0, Call_GetDisplayBounds '':0'' 1,
      Call_CaptureRect '':0'' \<lparr>Min_pt = \<lparr>X = 0, Y = 0\<rparr>, Max_pt = \<lparr>X = 3840, Y = 1080\<rparr>\<rparr>]"
proof -
  let ?opts = "demo_options (- 1) None []"
  have r: "Region ?opts = None" and m: "Monitor ?opts = - 1"
    by (simp_all add: demo_options_def)
  have ds: "two_displays = display_bounds demo_platform (display_target ?opts (demo_state None))"
    by (simp add: demo_target_default demo_facts)
  have ne: "two_displays \<noteq> []" by (simp add: two_displays_def)
  have wf: "\<forall>b\<in>set two_displays. well_formed b"
    by (simp add: two_displays_def Rect_def well_formed_def)
  have req: "\<lparr>Min_pt = \<lparr>X = 0, Y = 0\<rparr>, Max_pt = \<lparr>X = 3840, Y = 1080\<rparr>\<rparr> =
      \<lparr>Min_pt = \<lparr>X = Min ((\<lambda>b. X (Min_pt b)) ` set two_displays),
                 Y = Min ((\<lambda>b. Y (Min_pt b)) ` set two_displays)\<rparr>,
       Max_pt = \<lparr>X = Max ((\<lambda>b. X (Max_pt b)) ` set two_displays),
                 Y = Max ((\<lambda>b. Y (Max_pt b)) ` set two_displays)\<rparr>\<rparr>"
    by (simp add: two_displays_def Rect_def)
  have up: "[0..int (length two_displays) - 1] = [0, 1]"
    by (simp add: two_displays_def upto_rec1)
  show ?thesis
    using capture_all_monitors_bounding_box [OF demo_registered r m ds ne wf req]
    by (simp add: demo_target_default up demo_facts returned_def)
qed

subsection \<open>One monitor\<close>

text \<open>
  C6. With no region and a monitor index \<open>m \<ge> 0\<close>, over \<open>n \<ge> 1\<close> displays: when
  \<open>m > n - 1\<close> the call fails with the error that carries \<open>m\<close> and the upper end
  \<open>n - 1\<close> of the range (its message names the range \<open>0-(n-1)\<close>), having only counted the
  displays; otherwise it reads the bounds of display \<open>m\<close> and asks the library for
  exactly that rectangle.
\<close>

theorem capture_one_monitor:
  assumes "GetStrategy c = Inr strat" and "Region opts = None" and "0 \<le> Monitor opts"
    and "ds = display_bounds p (display_target opts st)" and "ds \<noteq> []"
  shows "(Monitor opts > int (length ds) - 1 \<longrightarrow>
           fst (Capture p c opts st) = Inl (MonitorOutOfRange (Monitor opts) (int (length ds) - 1)) \<and>
           calls (snd (Capture p c opts st)) =
             calls st @ [Call_NumActiveDisplays (display_target opts st)]) \<and>
         (Monitor opts \<le> int (length ds) - 1 \<longrightarrow>
           fst (Capture p c opts st) =
             returned (capture_rect p (display_target opts st) (ds ! nat (Monitor opts))) \<and>
           calls (snd (Capture p c opts st)) =
             calls st @
             [Call_NumActiveDisplays (display_target opts st),
              Call_GetDisplayBounds (display_target opts st) (Monitor opts),
              Call_CaptureRect (display_target opts st) (ds ! nat (Monitor opts))])"
proof -
  let ?st1 = "snd (ensureDisplay opts st)"
  have ds: "display_bounds p (Getenv ?st1) = ds"
    using assms(4) by (simp add: display_target_def)
  have ne: "Monitor opts \<noteq> - 1" using assms(3) by simp
  have out: "fst (Capture p c opts st) = Inl (MonitorOutOfRange (Monitor opts) (int (length ds) - 1)) \<and>
           calls (snd (Capture p c opts st)) =
             calls st @ [Call_NumActiveDisplays (display_target opts st)]"
    if "Monitor opts > int (length ds) - 1"
    using X11_Capture_body_out_of_range [OF assms(2) ne, of p ?st1] that assms(1,5)
    by (simp add: ds Capture_registered X11_Capture_eq display_target_def)
  have inside: "fst (Capture p c opts st) =
             returned (capture_rect p (display_target opts st) (ds ! nat (Monitor opts))) \<and>
           calls (snd (Capture p c opts st)) =
             calls st @
             [Call_NumActiveDisplays (display_target opts st),
              Call_GetDisplayBounds (display_target opts st) (Monitor opts),
              Call_CaptureRect (display_target opts st) (ds ! nat (Monitor opts))]"
    if "Monitor opts \<le> int (length ds) - 1"
    using X11_Capture_body_one [OF assms(2,3), of p ?st1] that assms(1)
    by (simp add: ds Capture_registered X11_Capture_eq display_target_def)
  from out inside show ?thesis by blast
qed

theorem capture_one_monitor_witness:
  "fst (Capture demo_platform demo_capturer (demo_options 5 None []) (demo_state None)) =
     Inl (MonitorOutOfRange 5 1) \<and>
   Error (MonitorOutOfRange 5 1) = ''monitor 5 out of range (0-1)'' \<and>
   calls (snd (Capture demo_platform demo_capturer (demo_options 5 None []) (demo_state None))) =
     [Call_NumActiveDisplays '':0''] \<and>
   fst (Capture demo_platform demo_capturer (demo_options 1 None []) (demo_state None)) =
     Inr ''pixels'' \<and>
   calls (snd (Capture demo_platform demo_capturer (demo_options 1 None []) (demo_state None))) =
     [Call_NumActiveDisplays '':0'', Call_GetDisplayBounds '':0'' 1,
      Call_CaptureRect '':0'' (Rect 1920 0 3840 1080)]"
proof -
  have ne: "two_displays \<noteq> []" and len: "int (length two_displays) - 1 = 1"
    by (simp_all add: two_displays_def)
  have ds: "two_displays = display_bounds demo_platform (display_target (demo_options m None []) (demo_state None))"
    for m by (simp add: demo_target_default demo_facts)
  have r: "Region (demo_options m None []) = None" and m: "Monitor (demo_options m None []) = m"
    for m by (simp_all add: demo_options_def)
  have msg: "Error (MonitorOutOfRange 5 1) = ''monitor 5 out of range (0-1)''"
    by code_simp
  have five: "(0::int) \<le> Monitor (demo_options 5 None [])" and one: "(0::int) \<le> Monitor (demo_options 1 None [])"
    by (simp_all add: m)
  show ?thesis
    using capture_one_monitor [OF demo_registered r five ds ne]
      capture_one_monitor [OF demo_registered r one ds ne] msg
    by (simp del: Error.simps add: m len demo_target_default demo_facts returned_def two_displays_def)
qed

subsection \<open>No displays, and the list of monitors\<close>

text \<open>
  C7. With a strategy registered: \<open>Capture\<close> without a region fails with
  \<open>NoActiveDisplays\<close> when the display it addresses reports no displays, and so does
  \<open>ListMonitors\<close>; over \<open>N \<ge> 1\<close> displays \<open>ListMonitors\<close> returns exactly \<open>N\<close>
  monitors, the one at position \<open>i\<close> with index \<open>i\<close>, the name \<open>Display i\<close> and the
  bounds the library reports for display \<open>i\<close>.
\<close>

theorem no_active_displays_and_monitor_list:
  assumes "GetStrategy c = Inr strat"
  shows "(Region opts = None \<and> display_bounds p (display_target opts st) = [] \<longrightarrow>
            fst (Capture p c opts st) = Inl NoActiveDisplays) \<and>
         (display_bounds p (list_target st) = [] \<longrightarrow>
            fst (ListMonitors p c st) = Inl NoActiveDisplays) \<and>
         (display_bounds p (list_target st) \<noteq> [] \<longrightarrow>
            (\<exists>ms. fst (ListMonitors p c st) = Inr ms \<and>
               ms = map (monitor_at (display_bounds p (list_target st)))
                      [0..<length (display_bounds p (list_target st))] \<and>
               length ms = length (display_bounds p (list_target st)) \<and>
               map Index ms = map int [0..<length (display_bounds p (list_target st))] \<and>
               map Bounds ms = display_bounds p (list_target st)))"
proof (intro conjI impI)
  assume "Region opts = None \<and> display_bounds p (display_target opts st) = []"
  then show "fst (Capture p c opts st) = Inl NoActiveDisplays"
    using assms
    by (simp add: Capture_registered X11_Capture_eq X11_Capture_body_none display_target_def)
next
  assume "display_bounds p (list_target st) = []"
  then show "fst (ListMonitors p c st) = Inl NoActiveDisplays"
    using assms by (simp add: ListMonitors_registered X11_ListMonitors_none)
next
  let ?ms = "map (monitor_at (display_bounds p (list_target st)))
                      [0..<length (display_bounds p (list_target st))]"
  assume "display_bounds p (list_target st) \<noteq> []"
  then have eq: "fst (ListMonitors p c st) = Inr ?ms"
    using assms by (simp add: ListMonitors_registered X11_ListMonitors_some)
  have len: "length ?ms = length (display_bounds p (list_target st))"
    by simp
  show "\<exists>ms. fst (ListMonitors p c st) = Inr ms \<and>
               ms = map (monitor_at (display_bounds p (list_target st)))
                      [0..<length (display_bounds p (list_target st))] \<and>
               length ms = length (display_bounds p (list_target st)) \<and>
               map Index ms = map int [0..<length (display_bounds p (list_target st))] \<and>
               map Bounds ms = display_bounds p (list_target st)"
    by (intro exI [of _ ?ms] conjI eq refl len monitor_at_fields)
qed

theorem no_active_displays_and_monitor_list_witness:
  "fst (Capture demo_platform demo_capturer (demo_options 0 None '':7'') (demo_state None)) =
     Inl NoActiveDisplays \<and>
   fst (ListMonitors demo_platform demo_capturer (demo_state (Some '':7''))) = Inl NoActiveDisplays \<and>
   fst (ListMonitors demo_platform demo_capturer (demo_state None)) =
     Inr [\<lparr>Index = 0, Name = ''Display 0'', Bounds = Rect 0 0 1920 1080\<rparr>,
          \<lparr>Index = 1, Name = ''Display 1'', Bounds = Rect 1920 0 3840 1080\<rparr>]"
proof -
  have t: "display_target (demo_options 0 None '':7'') (demo_state None) = '':7''"
    by (rule demo_target_override) simp_all
  have r: "Region (demo_options 0 None '':7'') = None"
    by (simp add: demo_options_def)
  have l: "list_target (demo_state (Some '':7'')) = '':7''"
    by (rule demo_list_target_set) simp
  have ms: "map (monitor_at two_displays) [0..<length two_displays] =
      [\<lparr>Index = 0, Name = ''Display 0'', Bounds = Rect 0 0 1920 1080\<rparr>,
       \<lparr>Index = 1, Name = ''Display 1'', Bounds = Rect 1920 0 3840 1080\<rparr>]"
    by code_simp
  have ne: "two_displays \<noteq> []" by (simp add: two_displays_def)
  show ?thesis
    using no_active_displays_and_monitor_list [OF demo_registered,
        of "demo_options 0 None '':7''" demo_platform "demo_state None"]
      no_active_displays_and_monitor_list [OF demo_registered,
        of "demo_options 0 None '':7''" demo_platform "demo_state (Some '':7'')"]
    by (simp add: t r l ms ne demo_list_target demo_facts)
qed

subsection \<open>The region parser takes any size\<close>

text \<open>
  C10. For an input of four comma-separated components, each a number that
  \<open>strconv.Atoi\<close> accepts once the white space around it is trimmed, \<open>parseRegion\<close>
  returns no error, whatever the sign of the width and of the height: it returns
  \<open>image.Rect(x, y, x + w, y + h)\<close>, which is well-formed, and for a negative width or
  height (whose sum does not overflow) the two coordinates are swapped, \<open>x + w\<close> being
  the left edge and \<open>x\<close> the right one.
\<close>

theorem parseRegion_accepts_any_size:
  assumes "CHR '','' \<notin> set c1" "CHR '','' \<notin> set c2" "CHR '','' \<notin> set c3" "CHR '','' \<notin> set c4"
    and "Atoi (TrimSpace c1) = Some x" "Atoi (TrimSpace c2) = Some y"
    and "Atoi (TrimSpace c3) = Some w" "Atoi (TrimSpace c4) = Some h"
  shows "parseRegion (c1 @ '','' @ c2 @ '','' @ c3 @ '','' @ c4) =
           Inr (Rect x y (add64 x w) (add64 y h)) \<and>
         well_formed (Rect x y (add64 x w) (add64 y h)) \<and>
         (w < 0 \<and> in_int64 (x + w) \<longrightarrow>
            X (Min_pt (Rect x y (add64 x w) (add64 y h))) = x + w \<and>
            X (Max_pt (Rect x y (add64 x w) (add64 y h))) = x) \<and>
         (h < 0 \<and> in_int64 (y + h) \<longrightarrow>
            Y (Min_pt (Rect x y (add64 x w) (add64 y h))) = y + h \<and>
            Y (Max_pt (Rect x y (add64 x w) (add64 y h))) = y)"
proof -
  have sp: "Split (c1 @ '','' @ c2 @ '','' @ c3 @ '','' @ c4) (CHR '','') = [c1, c2, c3, c4]"
    using Split_four [OF assms(1-4)] by simp
  have "parseRegion (c1 @ '','' @ c2 @ '','' @ c3 @ '','' @ c4) =
           Inr (Rect x y (add64 x w) (add64 y h))"
    unfolding parseRegion_def sp Let_def parse_parts_four [OF assms(5-8)]
    by simp
  moreover have "w < 0 \<and> in_int64 (x + w) \<longrightarrow>
            X (Min_pt (Rect x y (add64 x w) (add64 y h))) = x + w \<and>
            X (Max_pt (Rect x y (add64 x w) (add64 y h))) = x"
    by (auto simp: Rect_def add64_def wrap64_id)
  moreover have "h < 0 \<and> in_int64 (y + h) \<longrightarrow>
            Y (Min_pt (Rect x y (add64 x w) (add64 y h))) = y + h \<and>
            Y (Max_pt (Rect x y (add64 x w) (add64 y h))) = y"
    by (auto simp: Rect_def add64_def wrap64_id)
  ultimately show ?thesis by (simp add: Rect_well_formed)
qed

theorem parseRegion_accepts_any_size_witness:
  "parseRegion ''10, 20,-5,0'' = Inr \<lparr>Min_pt = \<lparr>X = 5, Y = 20\<rparr>, Max_pt = \<lparr>X = 10, Y = 20\<rparr>\<rparr> \<and>
   well_formed \<lparr>Min_pt = \<lparr>X = 5, Y = 20\<rparr>, Max_pt = \<lparr>X = 10, Y = 20\<rparr>\<rparr>"
proof -
  have c: "CHR '','' \<notin> set ''10''" "CHR '','' \<notin> set '' 20''" "CHR '','' \<notin> set ''-5''"
    "CHR '','' \<notin> set ''0''"
    by simp_all
  have a: "Atoi (TrimSpace ''10'') = Some 10" "Atoi (TrimSpace '' 20'') = Some 20"
    "Atoi (TrimSpace ''-5'') = Some (- 5)" "Atoi (TrimSpace ''0'') = Some 0"
    by code_simp+
  have r: "Rect 10 20 (add64 10 (- 5)) (add64 20 0) =
      \<lparr>Min_pt = \<lparr>X = 5, Y = 20\<rparr>, Max_pt = \<lparr>X = 10, Y = 20\<rparr>\<rparr>"
    by (simp add: Rect_def add64_def wrap64_def)
  show ?thesis
    using parseRegion_accepts_any_size [OF c a] by (simp add: r)
qed

subsection \<open>Writing the file\<close>

text \<open>
  C9. \<open>SavePNG\<close> first calls \<open>os.MkdirAll\<close> on the directory of the path (unless
  \<open>filepath.Dir\<close> gives \<open>.\<close>, the current directory), then creates or truncates the
  file, then encodes into it, and closes the file on every path on which it was opened:
  the open files of the process are the same after the call as before it. A failure to
  create the directory, to create the file or to encode is returned wrapped, each in an
  error of its own, and ends the call: no file is created after a failed \<open>MkdirAll\<close>,
  nothing is encoded after a failed \<open>Create\<close>.
\<close>

theorem SavePNG_directory_file_handle:
  assumes "dir = filepath_Dir p path"
    and "needed = (dir \<noteq> [] \<and> dir \<noteq> ''.'')"
    and "level = intToCompressionLevel lvl"
    and "st' = snd (SavePNG p img path lvl st)"
  shows "open_files st' = open_files st \<and>
         (\<forall>e. needed \<and> mkdir_all p dir = Some e \<longrightarrow>
            fst (SavePNG p img path lvl st) = Some (FailedCreateDirectory e) \<and>
            calls st' = calls st @ [Call_MkdirAll dir]) \<and>
         (\<forall>e. (needed \<longrightarrow> mkdir_all p dir = None) \<and> create_file p path = Some e \<longrightarrow>
            fst (SavePNG p img path lvl st) = Some (FailedCreateFile e) \<and>
            calls st' = calls st @ (if needed then [Call_MkdirAll dir] else []) @ [Call_Create path]) \<and>
         ((needed \<longrightarrow> mkdir_all p dir = None) \<and> create_file p path = None \<longrightarrow>
            fst (SavePNG p img path lvl st) =
              map_option FailedEncodePNG (snd (encode_png p (File path) level img)) \<and>
            calls st' = calls st @ (if needed then [Call_MkdirAll dir] else []) @
              [Call_Create path, Call_Encode (File path) level, Call_Close path] \<and>
            files st' path = Some (fst (encode_png p (File path) level img)) \<and>
            (needed \<longrightarrow> dir \<in> dirs st'))"
proof -
  have mk: "mkdir_calls p path = (if needed then [Call_MkdirAll dir] else [])"
    using assms(1,2) by (simp add: mkdir_calls_def)
  have 1: "fst (SavePNG p img path lvl st) = Some (FailedCreateDirectory e) \<and>
            calls st' = calls st @ [Call_MkdirAll dir] \<and> open_files st' = open_files st"
    if "needed" "mkdir_all p dir = Some e" for e
    using that assms by (simp add: SavePNG_mkdir_fails)
  have 2: "fst (SavePNG p img path lvl st) = Some (FailedCreateFile e) \<and>
            calls st' = calls st @ (if needed then [Call_MkdirAll dir] else []) @ [Call_Create path] \<and>
            open_files st' = open_files st"
    if "needed \<longrightarrow> mkdir_all p dir = None" "create_file p path = Some e" for e
  proof -
    have m: "filepath_Dir p path \<noteq> [] \<and> filepath_Dir p path \<noteq> ''.'' \<longrightarrow>
           mkdir_all p (filepath_Dir p path) = None"
      using that(1) assms(1,2) by simp
    show ?thesis
      unfolding assms(4) SavePNG_create_fails [OF m that(2)]
      by (simp add: calls_after_mkdir mk)
  qed
  have 3: "fst (SavePNG p img path lvl st) =
              map_option FailedEncodePNG (snd (encode_png p (File path) level img)) \<and>
            calls st' = calls st @ (if needed then [Call_MkdirAll dir] else []) @
              [Call_Create path, Call_Encode (File path) level, Call_Close path] \<and>
            files st' path = Some (fst (encode_png p (File path) level img)) \<and>
            (needed \<longrightarrow> dir \<in> dirs st') \<and> open_files st' = open_files st"
    if "needed \<longrightarrow> mkdir_all p dir = None" "create_file p path = None"
  proof -
    have m: "filepath_Dir p path \<noteq> [] \<and> filepath_Dir p path \<noteq> ''.'' \<longrightarrow>
           mkdir_all p (filepath_Dir p path) = None"
      using that(1) assms(1,2) by simp
    have d: "needed \<longrightarrow> dir \<in> dirs st'"
      using dirs_SavePNG_created [of p path img lvl st] that assms by simp
    show ?thesis
      using SavePNG_created [OF m that(2), of img lvl st] d
      by (simp add: assms(3,4) mk)
  qed
  have opened: "open_files st' = open_files st"
  proof (cases "needed \<and> mkdir_all p dir \<noteq> None")
    case True
    then show ?thesis using 1 by auto
  next
    case False
    then have n: "needed \<longrightarrow> mkdir_all p dir = None" by auto
    show ?thesis
    proof (cases "create_file p path")
      case None
      from 3 [OF n None] show ?thesis by simp
    next
      case (Some e)
      from 2 [OF n Some] show ?thesis by simp
    qed
  qed
  from opened 1 2 3 show ?thesis by blast
qed

theorem SavePNG_directory_file_handle_witness:
  "fst (SavePNG demo_platform ''pixels'' ''shots/a.png'' 1 (demo_state None)) = None \<and>
   calls (snd (SavePNG demo_platform ''pixels'' ''shots/a.png'' 1 (demo_state None))) =
     [Call_MkdirAll ''shots'', Call_Create ''shots/a.png'',
      Call_Encode (File ''shots/a.png'') BestSpeed, Call_Close ''shots/a.png''] \<and>
   open_files (snd (SavePNG demo_platform ''pixels'' ''shots/a.png'' 1 (demo_state None))) = [] \<and>
   files (snd (SavePNG demo_platform ''pixels'' ''shots/a.png'' 1 (demo_state None))) ''shots/a.png'' =
     Some ''PNG'' \<and>
   ''shots'' \<in> dirs (snd (SavePNG demo_platform ''pixels'' ''shots/a.png'' 1 (demo_state None))) \<and>
   fst (SavePNG (demo_platform\<lparr>mkdir_all := \<lambda>d. Some ''denied''\<rparr>) ''pixels'' ''shots/a.png'' 1
     (demo_state None)) = Some (FailedCreateDirectory ''denied'') \<and>
   calls (snd (SavePNG (demo_platform\<lparr>mkdir_all := \<lambda>d. Some ''denied''\<rparr>) ''pixels'' ''shots/a.png'' 1
     (demo_state None))) = [Call_MkdirAll ''shots''] \<and>
   fst (SavePNG (demo_platform\<lparr>create_file := \<lambda>d. Some ''denied''\<rparr>) ''pixels'' ''shots/a.png'' 1
     (demo_state None)) = Some (FailedCreateFile ''denied'') \<and>
   open_files (snd (SavePNG (demo_platform\<lparr>create_file := \<lambda>d. Some ''denied''\<rparr>) ''pixels''
     ''shots/a.png'' 1 (demo_state None))) = [] \<and>
   fst (SavePNG (demo_platform\<lparr>encode_png := \<lambda>k l i. (''P'', Some ''disk full'')\<rparr>) ''pixels''
     ''shots/a.png'' 1 (demo_state None)) = Some (FailedEncodePNG ''disk full'') \<and>
   open_files (snd (SavePNG (demo_platform\<lparr>encode_png := \<lambda>k l i. (''P'', Some ''disk full'')\<rparr>)
     ''pixels'' ''shots/a.png'' 1 (demo_state None))) = []"
proof -
  note inst = SavePNG_directory_file_handle [OF refl refl refl refl,
      where path = "''shots/a.png''" and img = "''pixels''" and lvl = 1 and st = "demo_state None"]
  show ?thesis
    using inst [where p = demo_platform]
      inst [where p = "demo_platform\<lparr>mkdir_all := \<lambda>d. Some ''denied''\<rparr>"]
      inst [where p = "demo_platform\<lparr>create_file := \<lambda>d. Some ''denied''\<rparr>"]
      inst [where p = "demo_platform\<lparr>encode_png := \<lambda>k l i. (''P'', Some ''disk full'')\<rparr>"]
    by (simp add: demo_platform_def demo_state_def intToCompressionLevel_def)
qed

subsection \<open>What the request layer does with a region\<close>

text \<open>
  C3, as the code has it. When the list of monitors is not asked for and a region is
  given: a specification that does not split at the commas into exactly four parts, each
  accepted by \<open>strconv.Atoi\<close> once the white space around it is trimmed, ends the run
  with the error \<open>invalid region\<close>, wrapping \<open>expected x,y,width,height\<close> or
  \<open>invalid number\<close> with the part, before any capture is attempted: the display count of
  the availability check is the only call made to the library. Every other specification
  is accepted, whatever the sign and the size of the width and of the height; the region
  passed on is \<open>image.Rect(x, y, x + w, y + h)\<close>, a well-formed rectangle, and with a
  strategy available the capture asks the library for exactly that rectangle.
\<close>

theorem run_region_validation:
  assumes "region fl \<noteq> []" and "\<not> listMon fl"
  shows
  "(\<forall>e. parseRegion (region fl) = Inl e \<longrightarrow>
      run p fl args st = (Some (InvalidRegion e), snd (New p st)) \<and>
      calls (snd (run p fl args st)) = calls st @ [Call_NumActiveDisplays (list_target st)] \<and>
      (e = ExpectedRegion \<or>
       (\<exists>part \<in> set (Split (region fl) (CHR '','')).
           e = InvalidNumber part \<and> Atoi (TrimSpace part) = None))) \<and>
   (\<forall>r. parseRegion (region fl) = Inr r \<longrightarrow>
      well_formed r \<and>
      (display_bounds p (list_target st) \<noteq> [] \<longrightarrow>
         (\<exists>rest. calls (snd (run p fl args st)) =
            calls st @
            [Call_NumActiveDisplays (list_target st),
             Call_CaptureRect
               (display_target
                  \<lparr>Monitor = monitor fl, Region = Some r, WindowID = 0, Display = display fl\<rparr>
                  (snd (New p st))) r] @ rest))) \<and>
   (\<forall>r. parseRegion (region fl) = Inr r \<longleftrightarrow>
      (\<exists>x y w h. map (\<lambda>part. Atoi (TrimSpace part)) (Split (region fl) (CHR '','')) =
                   [Some x, Some y, Some w, Some h] \<and>
                 r = Rect x y (add64 x w) (add64 y h)))"
proof (intro conjI allI impI)
  fix e assume e: "parseRegion (region fl) = Inl e"
  show run: "run p fl args st = (Some (InvalidRegion e), snd (New p st))"
    using run_region_error [OF assms e] .
  show "calls (snd (run p fl args st)) = calls st @ [Call_NumActiveDisplays (list_target st)]"
    unfolding run by (simp add: calls_New)
  show "e = ExpectedRegion \<or>
       (\<exists>part \<in> set (Split (region fl) (CHR '','')).
           e = InvalidNumber part \<and> Atoi (TrimSpace part) = None)"
    using parseRegion_Inl [OF e] .
next
  fix r assume r: "parseRegion (region fl) = Inr r"
  show "well_formed r" using parseRegion_well_formed [OF r] .
  show "\<exists>rest. calls (snd (run p fl args st)) =
            calls st @
            [Call_NumActiveDisplays (list_target st),
             Call_CaptureRect
               (display_target
                  \<lparr>Monitor = monitor fl, Region = Some r, WindowID = 0, Display = display fl\<rparr>
                  (snd (New p st))) r] @ rest"
    if "display_bounds p (list_target st) \<noteq> []"
    using run_region_capture [OF assms r that refl] .
next
  fix r
  show "parseRegion (region fl) = Inr r \<longleftrightarrow>
      (\<exists>x y w h. map (\<lambda>part. Atoi (TrimSpace part)) (Split (region fl) (CHR '','')) =
                   [Some x, Some y, Some w, Some h] \<and>
                 r = Rect x y (add64 x w) (add64 y h))"
    by (rule parseRegion_Inr_iff)
qed

theorem run_region_validation_witness:
  "run demo_platform (demo_flags ''0,0,3,x'') [''shots/a.png''] (demo_state None) =
     (Some (InvalidRegion (InvalidNumber ''x'')), snd (New demo_platform (demo_state None))) \<and>
   Error (InvalidRegion (InvalidNumber ''x'')) = ''invalid region: invalid number: x'' \<and>
   calls (snd (run demo_platform (demo_flags ''0,0,3,x'') [''shots/a.png''] (demo_state None))) =
     [Call_NumActiveDisplays '':0''] \<and>
   well_formed (Rect (- 3) 0 0 4) \<and>
   (\<exists>rest. calls (snd (run demo_platform (demo_flags ''0,0,-3,4'') [''shots/a.png'']
              (demo_state None))) =
      [Call_NumActiveDisplays '':0'', Call_CaptureRect '':0'' (Rect (- 3) 0 0 4)] @ rest)"
proof -
  have f: "region (demo_flags s) = s" "\<not> listMon (demo_flags s)" "monitor (demo_flags s) = - 1"
    "display (demo_flags s) = []" for s
    by (simp_all add: demo_flags_def)
  have ne: "region (demo_flags ''0,0,3,x'') \<noteq> []" "region (demo_flags ''0,0,-3,4'') \<noteq> []"
    by (simp_all add: f)
  have bad: "parseRegion ''0,0,3,x'' = Inl (InvalidNumber ''x'')"
    by code_simp
  have good: "parseRegion ''0,0,-3,4'' = Inr (Rect (- 3) 0 0 4)"
    by code_simp
  have msg: "Error (InvalidRegion (InvalidNumber ''x'')) = ''invalid region: invalid number: x''"
    by simp
  have lt: "list_target (demo_state None) = '':0''" by (rule demo_list_target)
  have ds: "display_bounds demo_platform '':0'' \<noteq> []"
    by (simp add: demo_facts two_displays_def)
  have tgt: "display_target \<lparr>Monitor = - 1, Region = Some (Rect (- 3) 0 0 4), WindowID = 0, Display = []\<rparr>
      (snd (New demo_platform (demo_state None))) = '':0''"
    using Getenv_New [of demo_platform "demo_state None"]
    by (simp add: display_target_def ensureDisplay_def lt)
  show ?thesis
    using run_region_validation [OF ne(1) f(2), of demo_platform "[''shots/a.png'']" "demo_state None"]
      run_region_validation [OF ne(2) f(2), of demo_platform "[''shots/a.png'']" "demo_state None"]
      bad good ds
    by (simp add: f lt tgt demo_facts calls_New del: Error.simps) (simp add: msg)
qed

text \<open>
  A region need not have a positive size: the region \<open>0,0,0,0\<close>, of width and height
  zero, is accepted, passed on and captured, and the run ends without an error.
\<close>

theorem run_accepts_empty_region:
  "fst (run demo_platform (demo_flags ''0,0,0,0'') [''shots/a.png''] (demo_state None)) = None \<and>
   calls (snd (run demo_platform (demo_flags ''0,0,0,0'') [''shots/a.png''] (demo_state None))) =
     [Call_NumActiveDisplays '':0'', Call_CaptureRect '':0'' (Rect 0 0 0 0),
      Call_MkdirAll ''shots'', Call_Create ''shots/a.png'',
      Call_Encode (File ''shots/a.png'') BestSpeed, Call_Close ''shots/a.png''] \<and>
   Dx (Rect 0 0 0 0) = 0 \<and> Dy (Rect 0 0 0 0) = 0"
  by code_simp

subsection \<open>Compression levels\<close>

text \<open>
  C8. The mapping from a numeric level to a compression level is total: 0 gives no
  compression, 1 the fastest compressed mode, 2 the default compression, 3 the best
  compression, and every other integer, negative or above 3, gives the fastest
  compressed mode; no input is rejected.
\<close>

theorem intToCompressionLevel_total:
  "intToCompressionLevel 0 = NoCompression \<and>
   intToCompressionLevel 1 = BestSpeed \<and>
   intToCompressionLevel 2 = DefaultCompression \<and>
   intToCompressionLevel 3 = BestCompression \<and>
   (\<forall>level. level < 0 \<or> 3 < level \<longrightarrow> intToCompressionLevel level = BestSpeed)"
  by (simp add: intToCompressionLevel_def)

theorem intToCompressionLevel_total_witness:
  "intToCompressionLevel (- 7) = BestSpeed \<and> intToCompressionLevel 4 = BestSpeed \<and>
   intToCompressionLevel 3 = BestCompression"
proof -
  have "(- 7 :: int) < 0 \<or> 3 < (- 7 :: int)" by simp
  moreover have "(4 :: int) < 0 \<or> 3 < (4 :: int)" by simp
  ultimately show ?thesis
    using intToCompressionLevel_total by blast
qed

end
